theory Spec2Isabelle
  imports Main "HOL-Library.Word"
begin

unbundle bit_operations_syntax

section \<open>Base types\<close>

type_synonym u8 = "8 word"
type_synonym u32 = "32 word"
type_synonym u64 = "64 word"

text \<open>A \<open>U128\<close> is the pair of its two 64-bit halves, \<open>u64[0]\<close> and \<open>u64[1]\<close>.\<close>

type_synonym u128 = "u64 \<times> u64"

section \<open>Instruction type functions\<close>

text \<open>
  \<open>DASM_Inst\<close>: the byte offset of the instruction in the blob, its jump destination and
  the range \<open>[min, max)\<close> of its line in the rendered text.
\<close>

record DASM_Inst =
  code_off :: u64
  jump_dst_vaddr :: u64
  text_range :: "u64 \<times> u64"

text \<open>
  A \<open>DASM_InstArray\<close> (\<open>v\<close>, \<open>count\<close>) is the list of its elements; \<open>count\<close> is the
  length of the list.
\<close>

type_synonym DASM_InstArray = "DASM_Inst list"

text \<open>
  The loop of \<open>dasm_inst_array_idx_from_code_off__linear_scan\<close>, entered at \<open>idx\<close>:
  \<open>result\<close> starts as 0 and is assigned only at the \<open>break\<close>.
\<close>

function linear_scan_loop :: "DASM_InstArray \<Rightarrow> u64 \<Rightarrow> nat \<Rightarrow> nat" where
  "linear_scan_loop array off idx =
     (if idx < length array
      then (if code_off (array ! idx) = off then idx
            else linear_scan_loop array off (idx + 1))
      else 0)"
  by pat_completeness auto
termination
  by (relation "measure (\<lambda>(array, off, idx). length array - idx)") auto

declare linear_scan_loop.simps [simp del]

definition dasm_inst_array_idx_from_code_off__linear_scan :: "DASM_InstArray \<Rightarrow> u64 \<Rightarrow> nat" where
  "dasm_inst_array_idx_from_code_off__linear_scan array off = linear_scan_loop array off 0"

definition dasm_inst_array_code_off_from_idx :: "DASM_InstArray \<Rightarrow> nat \<Rightarrow> u64" where
  "dasm_inst_array_code_off_from_idx array idx =
     (if idx < length array then code_off (array ! idx) else 0)"

text \<open>
  A chunk node holds its elements \<open>v[0 .. count)\<close> as a list (\<open>count\<close> is the length of
  the list) and its capacity; a chunk list holds its nodes from \<open>first\<close> to \<open>last\<close> and
  its two counters.
\<close>

record DASM_InstChunkNode =
  chunk_v :: "DASM_Inst list"
  chunk_cap :: nat

record DASM_InstChunkList =
  chunk_nodes :: "DASM_InstChunkNode list"
  node_count :: nat
  inst_count :: nat

definition dasm_inst_chunk_list_zero :: DASM_InstChunkList where
  "dasm_inst_chunk_list_zero = \<lparr>chunk_nodes = [], node_count = 0, inst_count = 0\<rparr>"

definition dasm_inst_chunk_list_push :: "DASM_InstChunkList \<Rightarrow> nat \<Rightarrow> DASM_Inst \<Rightarrow> DASM_InstChunkList" where
  "dasm_inst_chunk_list_push list cap inst =
     (let list =
            (if chunk_nodes list = [] \<or>
                length (chunk_v (last (chunk_nodes list))) \<ge> chunk_cap (last (chunk_nodes list))
             then list\<lparr>chunk_nodes := chunk_nodes list @ [\<lparr>chunk_v = [], chunk_cap = cap\<rparr>],
                       node_count := node_count list + 1\<rparr>
             else list);
          node = last (chunk_nodes list)
      in list\<lparr>chunk_nodes := butlast (chunk_nodes list) @ [node\<lparr>chunk_v := chunk_v node @ [inst]\<rparr>],
              inst_count := inst_count list + 1\<rparr>)"

text \<open>
  The array has \<open>inst_count\<close> elements; the elements of every chunk are copied into it
  one chunk after the other.
\<close>

definition dasm_inst_array_from_chunk_list :: "DASM_InstChunkList \<Rightarrow> DASM_InstArray" where
  "dasm_inst_array_from_chunk_list list =
     take (inst_count list) (concat (map chunk_v (chunk_nodes list)))"

section \<open>Parameter type functions\<close>

text \<open>
  \<open>U128\<close> helpers of the base layer. Modelled from the spec: \<open>u128_zero\<close> and \<open>u128_match\<close>
  are not in the source file; the zero hash is \<open>(0, 0)\<close> and two hashes match when both
  halves are equal.
\<close>

definition u128_zero :: u128 where
  "u128_zero = (0, 0)"

definition u128_match :: "u128 \<Rightarrow> u128 \<Rightarrow> bool" where
  "u128_match a b \<longleftrightarrow> fst a = fst b \<and> snd a = snd b"

definition max_U64 :: u64 where
  "max_U64 = - 1"

text \<open>
  A \<open>String8\<close> (\<open>str\<close>, \<open>size\<close>) is the list of its bytes; \<open>size\<close> is the length of the
  list. \<open>DI_Key\<close> is the debug-info key: a path and a minimum timestamp.
\<close>

record DI_Key =
  path :: "u8 list"
  min_timestamp :: u64

text \<open>
  \<open>DASM_Params\<close>. \<open>Architecture\<close>, \<open>DASM_StyleFlags\<close> and \<open>DASM_Syntax\<close> are 32-bit tags
  (the field \<open>syntax\<close> is named \<open>dasm_syntax\<close> here).
\<close>

record DASM_Params =
  vaddr :: u64
  arch :: u32
  style_flags :: u32
  dasm_syntax :: u32
  base_vaddr :: u64
  dbgi_key :: DI_Key

text \<open>
  Modelled from the spec: \<open>di_key_match\<close> belongs to the debug-info layer and is not in the
  source file; the spec has the keys match componentwise.
\<close>

definition di_key_match :: "DI_Key \<Rightarrow> DI_Key \<Rightarrow> bool" where
  "di_key_match a b \<longleftrightarrow> path a = path b \<and> min_timestamp a = min_timestamp b"

definition dasm_params_match :: "DASM_Params \<Rightarrow> DASM_Params \<Rightarrow> bool" where
  "dasm_params_match a b \<longleftrightarrow>
     vaddr a = vaddr b \<and>
     arch a = arch b \<and>
     style_flags a = style_flags b \<and>
     dasm_syntax a = dasm_syntax b \<and>
     base_vaddr a = base_vaddr b \<and>
     di_key_match (dbgi_key a) (dbgi_key b)"

text \<open>
  Modelled from the spec: the tags of the header, which is not in the source file. The
  spec lists the architectures x64 and x86, the style flags Addresses, CodeBytes,
  SourceFilesNames, SourceLines and SymbolNames (one bit each, in this order) and the
  syntaxes Intel and ATT.
\<close>

definition Architecture_x64 :: u32 where "Architecture_x64 = 1"

definition DASM_StyleFlag_Addresses :: u32 where "DASM_StyleFlag_Addresses = 1"
definition DASM_StyleFlag_CodeBytes :: u32 where "DASM_StyleFlag_CodeBytes = 2"
definition DASM_StyleFlag_SourceFilesNames :: u32 where "DASM_StyleFlag_SourceFilesNames = 4"
definition DASM_StyleFlag_SourceLines :: u32 where "DASM_StyleFlag_SourceLines = 8"
definition DASM_StyleFlag_SymbolNames :: u32 where "DASM_StyleFlag_SymbolNames = 16"

section \<open>Shared state\<close>

text \<open>
  \<open>DASM_Info\<close>: the key of the rendered text and the instruction array. An \<open>Arena\<close>
  pointer is the number of the arena, \<open>None\<close> for the null pointer.
\<close>

type_synonym arena_id = nat
type_synonym os_handle = u64

record DASM_Info =
  text_key :: u128
  insts :: DASM_InstArray

definition dasm_info_zero :: DASM_Info where
  "dasm_info_zero = \<lparr>text_key = (0, 0), insts = []\<rparr>"

text \<open>
  \<open>DASM_Node\<close>. The links \<open>next\<close> and \<open>prev\<close> are carried by the lists that hold the
  node (a slot's list, a stripe's free stack); every other field is here, under its
  source name with the prefix \<open>node_\<close>.
\<close>

record DASM_Node =
  node_hash :: u128
  node_params :: DASM_Params
  node_info_arena :: "arena_id option"
  node_info :: DASM_Info
  node_scope_ref_count :: u64
  node_last_time_touched_us :: u64
  node_last_user_clock_idx_touched :: u64
  node_last_time_requested_us :: u64
  node_last_user_clock_idx_requested :: u64
  node_load_count :: u64
  node_is_working :: u32
  node_change_gen :: u64

definition dasm_params_zero :: DASM_Params where
  "dasm_params_zero = \<lparr>vaddr = 0, arch = 0, style_flags = 0, dasm_syntax = 0, base_vaddr = 0,
     dbgi_key = \<lparr>path = [], min_timestamp = 0\<rparr>\<rparr>"

text \<open>The node after \<open>MemoryZeroStruct\<close>.\<close>

definition dasm_node_zero :: DASM_Node where
  "dasm_node_zero = \<lparr>node_hash = (0, 0), node_params = dasm_params_zero,
     node_info_arena = None, node_info = dasm_info_zero, node_scope_ref_count = 0,
     node_last_time_touched_us = 0, node_last_user_clock_idx_touched = 0,
     node_last_time_requested_us = 0, node_last_user_clock_idx_requested = 0,
     node_load_count = 0, node_is_working = 0, node_change_gen = 0\<rparr>"

record DASM_Touch =
  touch_hash :: u128
  touch_params :: DASM_Params

text \<open>
  A node pointer is the stripe whose arena holds the node and the node's number in that
  arena. A stripe keeps the count of nodes pushed on its arena and its stack of free
  nodes (top first).
\<close>

type_synonym node_ptr = "nat \<times> nat"

record DASM_Stripe =
  stripe_arena_nodes :: nat
  free_node :: "node_ptr list"

text \<open>
  The state: the fields of \<open>dasm_shared\<close>, the node memory, the touches of each scope
  (the thread context), and what the code reads from and does to the layers below it:
  the microsecond clock (its successive readings), the change generation of the file
  system, the condition-variable broadcasts made so far, the arenas allocated and
  released so far, and the texts submitted to the hash store so far. A slot is the list
  of its nodes from \<open>first\<close> to \<open>last\<close>. The ring memory maps a byte index to its
  byte. Locks are not modelled: every function below runs from start to end with no
  other thread in between.
\<close>

record dasm_state =
  slots_count :: u64
  stripes_count :: u64
  slots :: "nat \<Rightarrow> node_ptr list"
  stripes :: "nat \<Rightarrow> DASM_Stripe"
  node_mem :: "node_ptr \<Rightarrow> DASM_Node"
  u2p_ring_size :: u64
  u2p_ring_base :: "nat \<Rightarrow> u8"
  u2p_ring_write_pos :: u64
  u2p_ring_read_pos :: u64
  u2p_ring_cv :: os_handle
  u2p_ring_mutex :: os_handle
  user_clock_idx :: u64
  scope_touches :: "nat \<Rightarrow> DASM_Touch list"
  os_time :: "nat \<Rightarrow> u64"
  os_time_reads :: nat
  fs_change_gen :: u64
  cv_broadcasts :: "os_handle list"
  arenas_allocated :: nat
  arenas_released :: "arena_id list"
  hs_submitted :: "(u128 \<times> u8 list) list"

definition os_now_microseconds :: "dasm_state \<Rightarrow> u64 \<times> dasm_state" where
  "os_now_microseconds s = (os_time s (os_time_reads s), s\<lparr>os_time_reads := os_time_reads s + 1\<rparr>)"

definition os_condition_variable_broadcast :: "os_handle \<Rightarrow> dasm_state \<Rightarrow> dasm_state" where
  "os_condition_variable_broadcast cv s = s\<lparr>cv_broadcasts := cv_broadcasts s @ [cv]\<rparr>"

definition arena_release :: "arena_id \<Rightarrow> dasm_state \<Rightarrow> dasm_state" where
  "arena_release a s = s\<lparr>arenas_released := arenas_released s @ [a]\<rparr>"


definition node_update :: "node_ptr \<Rightarrow> (DASM_Node \<Rightarrow> DASM_Node) \<Rightarrow> dasm_state \<Rightarrow> dasm_state" where
  "node_update n f s = s\<lparr>node_mem := (node_mem s)(n := f (node_mem s n))\<rparr>"

definition dasm_user_clock_tick :: "dasm_state \<Rightarrow> dasm_state" where
  "dasm_user_clock_tick s = s\<lparr>user_clock_idx := user_clock_idx s + 1\<rparr>"

definition dasm_user_clock_idx :: "dasm_state \<Rightarrow> u64" where
  "dasm_user_clock_idx s = user_clock_idx s"

text \<open>
  The slot and the stripe of a hash: \<open>hash.u64[1] % slots_count\<close> and
  \<open>slot_idx % stripes_count\<close>. \<open>dasm_init\<close> sets \<open>slots_count\<close> to 1024 and
  \<open>stripes_count\<close> to the smaller of 1024 and the number of cores, and nothing assigns
  them afterwards. (With a count of 0 the C division would trap, where \<open>mod\<close> in HOL
  returns its first argument; no statement below depends on that case.)
\<close>

definition slot_idx_from_hash :: "dasm_state \<Rightarrow> u128 \<Rightarrow> u64" where
  "slot_idx_from_hash s hash = snd hash mod slots_count s"

definition stripe_idx_from_slot :: "dasm_state \<Rightarrow> u64 \<Rightarrow> u64" where
  "stripe_idx_from_slot s slot_idx = slot_idx mod stripes_count s"

text \<open>
  The search every path makes through a slot's list: the first node whose hash and
  parameters match, \<open>None\<close> when the loop runs to the end. (The parse thread passes
  the node's hash and parameters as the first arguments of the two match functions, the
  other paths as the second.)
\<close>

fun slot_find_node :: "(node_ptr \<Rightarrow> DASM_Node) \<Rightarrow> u128 \<Rightarrow> DASM_Params \<Rightarrow> node_ptr list \<Rightarrow> node_ptr option" where
  "slot_find_node mem hash params [] = None"
| "slot_find_node mem hash params (n # ns) =
     (if u128_match hash (node_hash (mem n)) \<and> dasm_params_match params (node_params (mem n))
      then Some n
      else slot_find_node mem hash params ns)"

section \<open>Scoped access\<close>

definition dasm_scope_touch_node__stripe_r_guarded :: "nat \<Rightarrow> node_ptr \<Rightarrow> dasm_state \<Rightarrow> dasm_state" where
  "dasm_scope_touch_node__stripe_r_guarded scope node s =
     (let s = node_update node (\<lambda>n. n\<lparr>node_scope_ref_count := node_scope_ref_count n + 1\<rparr>) s;
          (now, s) = os_now_microseconds s;
          s = node_update node (\<lambda>n. n\<lparr>node_last_time_touched_us := now\<rparr>) s;
          s = node_update node (\<lambda>n. n\<lparr>node_last_user_clock_idx_touched := dasm_user_clock_idx s\<rparr>) s;
          touch = \<lparr>touch_hash = node_hash (node_mem s node),
                   touch_params = node_params (node_mem s node)\<rparr>
      in s\<lparr>scope_touches := (scope_touches s)(scope := touch # scope_touches s scope)\<rparr>)"

section \<open>Request ring\<close>

text \<open>Little-endian bytes of the fields of a request, and the word of a byte list.\<close>

definition bytes_from_u32 :: "u32 \<Rightarrow> u8 list" where
  "bytes_from_u32 w =
     [ucast w, ucast (drop_bit 8 w), ucast (drop_bit 16 w), ucast (drop_bit 24 w)]"

definition bytes_from_u64 :: "u64 \<Rightarrow> u8 list" where
  "bytes_from_u64 w =
     [ucast w, ucast (drop_bit 8 w), ucast (drop_bit 16 w), ucast (drop_bit 24 w),
      ucast (drop_bit 32 w), ucast (drop_bit 40 w), ucast (drop_bit 48 w), ucast (drop_bit 56 w)]"

definition bytes_from_u128 :: "u128 \<Rightarrow> u8 list" where
  "bytes_from_u128 h = bytes_from_u64 (fst h) @ bytes_from_u64 (snd h)"

fun word_from_le_bytes :: "u8 list \<Rightarrow> 'a::len word" where
  "word_from_le_bytes [] = 0"
| "word_from_le_bytes (b # bs) = ucast b OR push_bit 8 (word_from_le_bytes bs)"

definition u128_from_bytes :: "u8 list \<Rightarrow> u128" where
  "u128_from_bytes bs = (word_from_le_bytes (take 8 bs), word_from_le_bytes (drop 8 bs))"

text \<open>
  Modelled from the spec: \<open>ring_write\<close> and \<open>ring_read\<close> belong to the base layer and are
  not in the source file. The spec has the ring addressed modulo its size: the byte at
  position \<open>pos + i\<close> lives at index \<open>(pos + i) mod size\<close>. Both return the number of bytes
  moved, which the callers add to their position.
\<close>

fun ring_write :: "(nat \<Rightarrow> u8) \<Rightarrow> nat \<Rightarrow> nat \<Rightarrow> u8 list \<Rightarrow> (nat \<Rightarrow> u8)" where
  "ring_write base sz pos [] = base"
| "ring_write base sz pos (b # bs) = ring_write (base(pos mod sz := b)) sz (pos + 1) bs"

fun ring_read :: "(nat \<Rightarrow> u8) \<Rightarrow> nat \<Rightarrow> nat \<Rightarrow> nat \<Rightarrow> u8 list" where
  "ring_read base sz pos 0 = []"
| "ring_read base sz pos (Suc n) = base (pos mod sz) # ring_read base sz (pos + 1) n"

text \<open>
  One statement \<open>write_pos += ring_write(base, size, write_pos, src, n)\<close> of the enqueue,
  and one statement \<open>read_pos += ring_read(base, size, read_pos, dst, n)\<close> of the dequeue.
\<close>

definition u2p_write :: "u8 list \<Rightarrow> dasm_state \<Rightarrow> dasm_state" where
  "u2p_write src s =
     s\<lparr>u2p_ring_base := ring_write (u2p_ring_base s) (unat (u2p_ring_size s))
                           (unat (u2p_ring_write_pos s)) src,
       u2p_ring_write_pos := u2p_ring_write_pos s + of_nat (length src)\<rparr>"

definition u2p_read :: "nat \<Rightarrow> dasm_state \<Rightarrow> u8 list \<times> dasm_state" where
  "u2p_read n s =
     (ring_read (u2p_ring_base s) (unat (u2p_ring_size s)) (unat (u2p_ring_read_pos s)) n,
      s\<lparr>u2p_ring_read_pos := u2p_ring_read_pos s + of_nat n\<rparr>)"

text \<open>The test of the enqueue: the free bytes of the ring against the size of the record.\<close>

definition u2p_enqueue_has_room :: "DASM_Params \<Rightarrow> dasm_state \<Rightarrow> bool" where
  "u2p_enqueue_has_room params s =
     (let unconsumed_size = u2p_ring_write_pos s - u2p_ring_read_pos s;
          available_size = u2p_ring_size s - unconsumed_size
      in available_size \<ge> 16 + 8 + 4 + 4 + 4 + 8 + 8 + of_nat (length (path (dbgi_key params))) + 8)"

text \<open>The writes of the enqueue, in the order of the source, and the padding.\<close>

definition u2p_enqueue_write :: "u128 \<Rightarrow> DASM_Params \<Rightarrow> dasm_state \<Rightarrow> dasm_state" where
  "u2p_enqueue_write hash params s =
     (let s = u2p_write (bytes_from_u128 hash) s;
          s = u2p_write (bytes_from_u64 (vaddr params)) s;
          s = u2p_write (bytes_from_u32 (arch params)) s;
          s = u2p_write (bytes_from_u32 (style_flags params)) s;
          s = u2p_write (bytes_from_u32 (dasm_syntax params)) s;
          s = u2p_write (bytes_from_u64 (base_vaddr params)) s;
          s = u2p_write (bytes_from_u64 (of_nat (length (path (dbgi_key params))))) s;
          s = u2p_write (path (dbgi_key params)) s;
          s = u2p_write (bytes_from_u64 (min_timestamp (dbgi_key params))) s;
          s = s\<lparr>u2p_ring_write_pos := u2p_ring_write_pos s + 7\<rparr>
      in s\<lparr>u2p_ring_write_pos := u2p_ring_write_pos s - u2p_ring_write_pos s mod 8\<rparr>)"

text \<open>
  The loop of \<open>dasm_u2p_enqueue_req\<close>. When the ring has no room and the deadline has not
  passed the thread waits on the condition variable; in this sequential model nothing
  else runs, the wait returns with the ring as it was, and the loop goes round again.
  The value is the flag \<open>good\<close> and the state; \<open>None\<close> when the loop never ends.
\<close>

partial_function (option) u2p_enqueue_loop :: "u128 \<Rightarrow> DASM_Params \<Rightarrow> u64 \<Rightarrow> dasm_state \<Rightarrow> (bool \<times> dasm_state) option" where
  "u2p_enqueue_loop hash params endt_us s =
     (if u2p_enqueue_has_room params s
      then Some (True, u2p_enqueue_write hash params s)
      else if fst (os_now_microseconds s) \<ge> endt_us
      then Some (False, snd (os_now_microseconds s))
      else u2p_enqueue_loop hash params endt_us (snd (os_now_microseconds s)))"

definition dasm_u2p_enqueue_req :: "u128 \<Rightarrow> DASM_Params \<Rightarrow> u64 \<Rightarrow> dasm_state \<Rightarrow> (bool \<times> dasm_state) option" where
  "dasm_u2p_enqueue_req hash params endt_us s =
     (case u2p_enqueue_loop hash params endt_us s of
        None \<Rightarrow> None
      | Some (good, s) \<Rightarrow>
          Some (good, if good then os_condition_variable_broadcast (u2p_ring_cv s) s else s))"

text \<open>The reads of the dequeue, in the order of the source, and the padding.\<close>

definition u2p_dequeue_read :: "dasm_state \<Rightarrow> u128 \<times> DASM_Params \<times> dasm_state" where
  "u2p_dequeue_read s =
     (let (hash_b, s) = u2p_read 16 s;
          (vaddr_b, s) = u2p_read 8 s;
          (arch_b, s) = u2p_read 4 s;
          (style_flags_b, s) = u2p_read 4 s;
          (syntax_b, s) = u2p_read 4 s;
          (base_vaddr_b, s) = u2p_read 8 s;
          (path_size_b, s) = u2p_read 8 s;
          (path_b, s) = u2p_read (unat (word_from_le_bytes path_size_b :: u64)) s;
          (min_timestamp_b, s) = u2p_read 8 s;
          s = s\<lparr>u2p_ring_read_pos := u2p_ring_read_pos s + 7\<rparr>;
          s = s\<lparr>u2p_ring_read_pos := u2p_ring_read_pos s - u2p_ring_read_pos s mod 8\<rparr>
      in (u128_from_bytes hash_b,
          \<lparr>vaddr = word_from_le_bytes vaddr_b,
           arch = word_from_le_bytes arch_b,
           style_flags = word_from_le_bytes style_flags_b,
           dasm_syntax = word_from_le_bytes syntax_b,
           base_vaddr = word_from_le_bytes base_vaddr_b,
           dbgi_key = \<lparr>path = path_b, min_timestamp = word_from_le_bytes min_timestamp_b\<rparr>\<rparr>,
          s))"

definition u2p_dequeue_has_record :: "dasm_state \<Rightarrow> bool" where
  "u2p_dequeue_has_record s =
     (let unconsumed_size = u2p_ring_write_pos s - u2p_ring_read_pos s
      in unconsumed_size \<ge> 16 + 8 + 4 + 4 + 4 + 8 + 8 + 8)"

text \<open>
  The loop of \<open>dasm_u2p_dequeue_req\<close>: with fewer unconsumed bytes than a record without
  its path, the thread waits and tries again; \<open>None\<close> when that never ends.
\<close>

partial_function (option) u2p_dequeue_loop :: "dasm_state \<Rightarrow> (u128 \<times> DASM_Params \<times> dasm_state) option" where
  "u2p_dequeue_loop s =
     (if u2p_dequeue_has_record s then Some (u2p_dequeue_read s) else u2p_dequeue_loop s)"

text \<open>
  After its loop the dequeue calls \<open>os_condition_variable_broadcast\<close> with the handle
  \<open>u2p_ring_mutex\<close>.
\<close>

definition dasm_u2p_dequeue_req :: "dasm_state \<Rightarrow> (u128 \<times> DASM_Params \<times> dasm_state) option" where
  "dasm_u2p_dequeue_req s =
     (case u2p_dequeue_loop s of
        None \<Rightarrow> None
      | Some (hash_out, params_out, s) \<Rightarrow>
          Some (hash_out, params_out, os_condition_variable_broadcast (u2p_ring_mutex s) s))"

text \<open>
  For the statements about the ring: the bytes of a request in the layout of the spec,
  the padding of both sides (advance by 7, round down to a multiple of 8), and the
  little-endian bytes of a word by recursion.
\<close>

definition u2p_record_bytes :: "u128 \<Rightarrow> DASM_Params \<Rightarrow> u8 list" where
  "u2p_record_bytes hash params =
     bytes_from_u128 hash @ bytes_from_u64 (vaddr params) @ bytes_from_u32 (arch params) @
     bytes_from_u32 (style_flags params) @ bytes_from_u32 (dasm_syntax params) @
     bytes_from_u64 (base_vaddr params) @
     bytes_from_u64 (of_nat (length (path (dbgi_key params)))) @
     path (dbgi_key params) @ bytes_from_u64 (min_timestamp (dbgi_key params))"

definition u2p_pad :: "u64 \<Rightarrow> u64" where
  "u2p_pad pos = (pos + 7) - (pos + 7) mod 8"

fun le_bytes_from_word :: "nat \<Rightarrow> 'a::len word \<Rightarrow> u8 list" where
  "le_bytes_from_word 0 w = []"
| "le_bytes_from_word (Suc n) w = ucast w # le_bytes_from_word n (drop_bit 8 w)"

section \<open>Cache lookups\<close>

text \<open>
  The node a miss creates: popped from the stripe's free stack, or pushed on the
  stripe's arena; zeroed, appended to the slot, and given the hash and the parameters.
\<close>

definition slot_create_node :: "u64 \<Rightarrow> u64 \<Rightarrow> u128 \<Rightarrow> DASM_Params \<Rightarrow> dasm_state \<Rightarrow> dasm_state" where
  "slot_create_node slot_idx stripe_idx hash params s =
     (let stripe = stripes s (unat stripe_idx);
          (node, stripe) =
            (case free_node stripe of
               n # rest \<Rightarrow> (n, stripe\<lparr>free_node := rest\<rparr>)
             | [] \<Rightarrow> ((unat stripe_idx, stripe_arena_nodes stripe),
                      stripe\<lparr>stripe_arena_nodes := stripe_arena_nodes stripe + 1\<rparr>));
          s = s\<lparr>stripes := (stripes s)(unat stripe_idx := stripe)\<rparr>;
          s = node_update node (\<lambda>n. dasm_node_zero) s;
          s = s\<lparr>slots := (slots s)(unat slot_idx := slots s (unat slot_idx) @ [node])\<rparr>;
          s = node_update node (\<lambda>n. n\<lparr>node_hash := hash\<rparr>) s
      in node_update node (\<lambda>n. n\<lparr>node_params := params\<rparr>) s)"

text \<open>
  \<open>dasm_info_from_hash_params\<close>: nothing is done for the zero hash. Otherwise the slot is
  searched under the read lock; a hit copies the node's info and touches the node. On a
  miss the slot is searched again under the write lock, the node is created when it is
  still absent, and only then is the request enqueued, with no deadline. The value is
  \<open>None\<close> when that enqueue never returns.
\<close>

definition dasm_info_from_hash_params :: "nat \<Rightarrow> u128 \<Rightarrow> DASM_Params \<Rightarrow> dasm_state \<Rightarrow> (DASM_Info \<times> dasm_state) option" where
  "dasm_info_from_hash_params scope hash params s =
     (if \<not> u128_match hash u128_zero
      then
        (let slot_idx = slot_idx_from_hash s hash;
             stripe_idx = stripe_idx_from_slot s slot_idx
         in case slot_find_node (node_mem s) hash params (slots s (unat slot_idx)) of
              Some n \<Rightarrow>
                Some (node_info (node_mem s n), dasm_scope_touch_node__stripe_r_guarded scope n s)
            | None \<Rightarrow>
                (case slot_find_node (node_mem s) hash params (slots s (unat slot_idx)) of
                   Some node \<Rightarrow> Some (dasm_info_zero, s)
                 | None \<Rightarrow>
                     (case dasm_u2p_enqueue_req hash params max_U64
                             (slot_create_node slot_idx stripe_idx hash params s) of
                        None \<Rightarrow> None
                      | Some (good, s) \<Rightarrow> Some (dasm_info_zero, s))))
      else Some (dasm_info_zero, s))"

text \<open>
  \<open>hs_hash_from_key\<close> belongs to the hash store and is a parameter. \<open>hash_out\<close> is
  \<open>None\<close> for the null pointer and \<open>Some v\<close> for a pointer to a cell that holds \<open>v\<close>; the
  cell after the call is returned with the result. The loop is entered with
  \<open>rewind_idx\<close> and the current \<open>result\<close>.
\<close>

function info_from_key_params_loop :: "(u128 \<Rightarrow> u64 \<Rightarrow> u128) \<Rightarrow> nat \<Rightarrow> u128 \<Rightarrow> DASM_Params \<Rightarrow> nat \<Rightarrow> DASM_Info \<Rightarrow> u128 option \<Rightarrow> dasm_state \<Rightarrow> (DASM_Info \<times> u128 option \<times> dasm_state) option" where
  "info_from_key_params_loop hs_hash_from_key scope key params rewind_idx result hash_out s =
     (if rewind_idx < 2
      then
        (let hash = hs_hash_from_key key (of_nat rewind_idx)
         in case dasm_info_from_hash_params scope hash params s of
              None \<Rightarrow> None
            | Some (result, s) \<Rightarrow>
                if insts result \<noteq> []
                then Some (result, (case hash_out of None \<Rightarrow> None | Some old \<Rightarrow> Some hash), s)
                else info_from_key_params_loop hs_hash_from_key scope key params
                       (rewind_idx + 1) result hash_out s)
      else Some (result, hash_out, s))"
  by pat_completeness auto
termination
  by (relation "measure (\<lambda>(hs, scope, key, params, rewind_idx, result, hash_out, s). 2 - rewind_idx)") auto

declare info_from_key_params_loop.simps [simp del]

definition dasm_info_from_key_params :: "(u128 \<Rightarrow> u64 \<Rightarrow> u128) \<Rightarrow> nat \<Rightarrow> u128 \<Rightarrow> DASM_Params \<Rightarrow> u128 option \<Rightarrow> dasm_state \<Rightarrow> (DASM_Info \<times> u128 option \<times> dasm_state) option" where
  "dasm_info_from_key_params hs_hash_from_key scope key params hash_out s =
     info_from_key_params_loop hs_hash_from_key scope key params 0 dasm_info_zero hash_out s"

section \<open>Main layer initialization\<close>

text \<open>
  The state after \<open>dasm_init\<close>, from what the layers below answer: the number of
  logical cores, the handles of the ring's condition variable and mutex, the clock, and
  the change generation of the file system at that moment, which \<open>dasm_init\<close> neither
  reads nor sets. The ring memory is not zeroed by the source; it is taken as zero here.
\<close>

definition dasm_init :: "u64 \<Rightarrow> os_handle \<Rightarrow> os_handle \<Rightarrow> (nat \<Rightarrow> u64) \<Rightarrow> u64 \<Rightarrow> dasm_state" where
  "dasm_init os_logical_core_count cv mutex clock change_gen =
     \<lparr>slots_count = 1024,
      stripes_count = min 1024 os_logical_core_count,
      slots = (\<lambda>slot_idx. []),
      stripes = (\<lambda>stripe_idx. \<lparr>stripe_arena_nodes = 0, free_node = []\<rparr>),
      node_mem = (\<lambda>n. dasm_node_zero),
      u2p_ring_size = 65536,
      u2p_ring_base = (\<lambda>i. 0),
      u2p_ring_write_pos = 0,
      u2p_ring_read_pos = 0,
      u2p_ring_cv = cv,
      u2p_ring_mutex = mutex,
      user_clock_idx = 0,
      scope_touches = (\<lambda>scope. []),
      os_time = clock,
      os_time_reads = 0,
      fs_change_gen = change_gen,
      cv_broadcasts = [],
      arenas_allocated = 0,
      arenas_released = [],
      hs_submitted = []\<rparr>"

section \<open>Parse threads\<close>

text \<open>
  What the layers below answer to one request of a parse thread: the debug-info layer
  (the handle of the parsed debug info of a key, and the handle of the nil sentinel
  \<open>di_rdi_parsed_nil\<close>), the hash store (the data of a hash, the hash of data), the
  decoder (at an offset of the data: the size of the instruction, 0 when it fails, and
  the target of its first operand when that is a jump immediate, 0 otherwise), the lines
  that the source-line block of the loop pushes before the instruction at an offset
  (each with a zeroed \<open>DASM_Inst\<close>), the number of times that block reads the clock
  there, and the rendered line \<open>inst_string\<close> of the instruction at an offset.

  The source-line block reads the clock where it asks the text layer for the text of a
  source file: \<open>for(;os_now_microseconds() <= endt_us;)\<close> with \<open>endt_us = max_U64\<close>, left
  only when \<open>txt_text_info_from_key_lang\<close> gives a hash other than zero. Every poll
  reads the clock once and no reading ends the loop, so the block at an offset reads the
  clock as often as it polls: 0 times where it asks for no text, and \<open>None\<close> where the
  text layer never answers, in which case the thread stays in that loop.
\<close>

record parse_env =
  di_rdi_parsed_nil :: u64
  di_rdi_from_key :: "DI_Key \<Rightarrow> u64"
  hs_data_from_hash :: "u128 \<Rightarrow> u8 list"
  hs_hash_from_data :: "u8 list \<Rightarrow> u128"
  ud_disassemble :: "u8 list \<Rightarrow> nat \<Rightarrow> u64 \<times> u64"
  source_line_strings :: "u64 \<Rightarrow> DASM_Params \<Rightarrow> nat \<Rightarrow> u8 list list"
  source_line_clock_reads :: "u64 \<Rightarrow> DASM_Params \<Rightarrow> nat \<Rightarrow> nat option"
  inst_string_at :: "u64 \<Rightarrow> DASM_Params \<Rightarrow> u8 list \<Rightarrow> nat \<Rightarrow> u8 list"

text \<open>
  A \<open>String8List\<close> is the list of its strings; \<open>total_size\<close> is the sum of their sizes
  and \<open>node_count\<close> their number.
\<close>

definition str8_list_total_size :: "u8 list list \<Rightarrow> nat" where
  "str8_list_total_size strings = sum_list (map length strings)"

text \<open>
  Modelled from the spec: \<open>str8_list_join\<close> and \<open>r1u64\<close> belong to the base layer and are
  not in the source file. The join puts the separator between consecutive strings, none
  after the last; \<open>r1u64 min max\<close> is the range \<open>[min, max)\<close>.
\<close>

fun str8_list_join :: "u8 list list \<Rightarrow> u8 list \<Rightarrow> u8 list" where
  "str8_list_join [] sep = []"
| "str8_list_join [x] sep = x"
| "str8_list_join (x # y # ys) sep = x @ sep @ str8_list_join (y # ys) sep"

definition r1u64 :: "u64 \<Rightarrow> u64 \<Rightarrow> u64 \<times> u64" where
  "r1u64 min_v max_v = (min_v, max_v)"

text \<open>
  Modelled from the spec: a \<open>text_range\<close> is a byte range \<open>[min, max)\<close> into the rendered
  text; these are the bytes it selects.
\<close>

definition str8_substr :: "u8 list \<Rightarrow> u64 \<times> u64 \<Rightarrow> u8 list" where
  "str8_substr str rng = take (unat (snd rng) - unat (fst rng)) (drop (unat (fst rng)) str)"

definition dasm_inst_zero :: DASM_Inst where
  "dasm_inst_zero = \<lparr>code_off = 0, jump_dst_vaddr = 0, text_range = (0, 0)\<rparr>"

text \<open>
  A line of source text pushed before an instruction: a zeroed \<open>DASM_Inst\<close> on the chunk
  list and the line on the string list.
\<close>

fun push_source_lines :: "u8 list list \<Rightarrow> DASM_InstChunkList \<times> u8 list list \<Rightarrow> DASM_InstChunkList \<times> u8 list list" where
  "push_source_lines [] acc = acc"
| "push_source_lines (l # ls) (inst_list, inst_strings) =
     push_source_lines ls (dasm_inst_chunk_list_push inst_list 1024 dasm_inst_zero, inst_strings @ [l])"

text \<open>
  The push of a decoded instruction: the \<open>DASM_Inst\<close> with the offset, the jump target and
  the range computed from the string list so far, then the string itself.
\<close>

definition push_decoded_inst :: "nat \<Rightarrow> u64 \<Rightarrow> u8 list \<Rightarrow> DASM_InstChunkList \<times> u8 list list \<Rightarrow> DASM_InstChunkList \<times> u8 list list" where
  "push_decoded_inst off rel_voff inst_string acc =
     (let (inst_list, inst_strings) = acc;
          total_size = (of_nat (str8_list_total_size inst_strings) :: u64);
          node_count = (of_nat (length inst_strings) :: u64);
          inst = \<lparr>code_off = of_nat off, jump_dst_vaddr = rel_voff,
                  text_range = r1u64 (total_size + node_count)
                                     (total_size + node_count + of_nat (length inst_string))\<rparr>
      in (dasm_inst_chunk_list_push inst_list 1024 inst, inst_strings @ [inst_string]))"

text \<open>
  The disassembly loop, entered at \<open>off\<close>. The offset is a natural number: a decoder
  never reads past the end of its input, so the 64-bit offset of the source does not
  wrap.
\<close>

function decode_loop :: "parse_env \<Rightarrow> u64 \<Rightarrow> DASM_Params \<Rightarrow> u8 list \<Rightarrow> nat \<Rightarrow> DASM_InstChunkList \<times> u8 list list \<Rightarrow> DASM_InstChunkList \<times> u8 list list" where
  "decode_loop env rdi params data off acc =
     (if off < length data
      then
        (let (sz, rel_voff) = ud_disassemble env data off
         in if sz = 0 then acc
            else
              (let acc =
                     (if style_flags params AND
                           (DASM_StyleFlag_SourceFilesNames OR DASM_StyleFlag_SourceLines) \<noteq> 0
                         \<and> rdi \<noteq> di_rdi_parsed_nil env
                      then push_source_lines (source_line_strings env rdi params off) acc
                      else acc);
                   inst_string = inst_string_at env rdi params data off;
                   acc = push_decoded_inst off rel_voff inst_string acc
               in decode_loop env rdi params data (off + unat sz) acc))
      else acc)"
  by pat_completeness auto
termination
proof (relation "measure (\<lambda>(env, rdi, params, data, off, acc). length data - off)")
  show "wf (measure (\<lambda>(env, rdi, params, data, off, acc). length data - off))"
    by simp
next
  fix env :: parse_env and rdi :: u64 and params :: DASM_Params and data :: "u8 list"
    and off :: nat and sz :: u64
  assume lt: "off < length data" and nz: "sz \<noteq> 0"
  from nz have "0 < unat sz" by (simp add: unat_gt_0)
  with lt have "length data - (off + unat sz) < length data - off" by arith
  then show "((env, rdi, params, data, off + unat sz, acc'), (env, rdi, params, data, off, acc))
      \<in> measure (\<lambda>(env, rdi, params, data, off, acc). length data - off)" for acc acc'
    by simp
qed

declare decode_loop.simps [simp del]







section \<open>Evictor/detector thread\<close>

definition evict_threshold_us :: u64 where "evict_threshold_us = 10 * 1000000"
definition retry_threshold_us :: u64 where "retry_threshold_us = 1 * 1000000"
definition evict_threshold_user_clocks :: u64 where "evict_threshold_user_clocks = 10"
definition retry_threshold_user_clocks :: u64 where "retry_threshold_user_clocks = 10"

text \<open>The condition of the first \<open>if\<close> of both passes, and the condition of the second.\<close>

definition evict_cond :: "u64 \<Rightarrow> u64 \<Rightarrow> DASM_Node \<Rightarrow> bool" where
  "evict_cond check_time_us check_time_user_clocks n \<longleftrightarrow>
     node_scope_ref_count n = 0 \<and>
     node_last_time_touched_us n + evict_threshold_us \<le> check_time_us \<and>
     node_last_user_clock_idx_touched n + evict_threshold_user_clocks \<le> check_time_user_clocks \<and>
     node_load_count n \<noteq> 0 \<and>
     node_is_working n = 0"

definition retry_cond :: "u64 \<Rightarrow> u64 \<Rightarrow> u64 \<Rightarrow> DASM_Node \<Rightarrow> bool" where
  "retry_cond change_gen check_time_us check_time_user_clocks n \<longleftrightarrow>
     node_change_gen n \<noteq> 0 \<and> node_change_gen n \<noteq> change_gen \<and>
     node_last_time_requested_us n + retry_threshold_us \<le> check_time_us \<and>
     node_last_user_clock_idx_requested n + retry_threshold_user_clocks \<le> check_time_user_clocks"

text \<open>The body of the first \<open>if\<close> of the write pass: unlink, release, push on the free stack.\<close>

definition evict_node :: "nat \<Rightarrow> nat \<Rightarrow> node_ptr \<Rightarrow> dasm_state \<Rightarrow> dasm_state" where
  "evict_node slot_idx stripe_idx n s =
     (let s = s\<lparr>slots := (slots s)(slot_idx := remove1 n (slots s slot_idx))\<rparr>;
          s = (case node_info_arena (node_mem s n) of
                 None \<Rightarrow> s
               | Some a \<Rightarrow> arena_release a s)
      in s\<lparr>stripes := (stripes s)
             (stripe_idx := (stripes s stripe_idx)
                \<lparr>free_node := n # free_node (stripes s stripe_idx)\<rparr>)\<rparr>)"

text \<open>The body of the second \<open>if\<close> of the write pass.\<close>

definition requeue_node :: "u64 \<Rightarrow> node_ptr \<Rightarrow> dasm_state \<Rightarrow> dasm_state option" where
  "requeue_node check_time_user_clocks n s =
     (case dasm_u2p_enqueue_req (node_hash (node_mem s n)) (node_params (node_mem s n)) max_U64 s of
        None \<Rightarrow> None
      | Some (good, s) \<Rightarrow>
          if good
          then
            (let (now, s) = os_now_microseconds s;
                 s = node_update n (\<lambda>n. n\<lparr>node_last_time_requested_us := now\<rparr>) s
             in Some (node_update n
                  (\<lambda>n. n\<lparr>node_last_user_clock_idx_requested := check_time_user_clocks\<rparr>) s))
          else Some s)"

text \<open>The body of the loop of the write pass, for the node \<open>n\<close>: both \<open>if\<close>s in turn.\<close>

definition evictor_visit_node :: "u64 \<Rightarrow> u64 \<Rightarrow> u64 \<Rightarrow> nat \<Rightarrow> nat \<Rightarrow> node_ptr \<Rightarrow> dasm_state \<Rightarrow> dasm_state option" where
  "evictor_visit_node change_gen check_time_us check_time_user_clocks slot_idx stripe_idx n s =
     (let s = (if evict_cond check_time_us check_time_user_clocks (node_mem s n)
               then evict_node slot_idx stripe_idx n s
               else s)
      in if retry_cond change_gen check_time_us check_time_user_clocks (node_mem s n)
         then requeue_node check_time_user_clocks n s
         else Some s)"

text \<open>
  The write pass over the nodes of the slot, in the order of the list as it was when
  each \<open>next\<close> was read.
\<close>

fun evictor_write_pass :: "u64 \<Rightarrow> u64 \<Rightarrow> u64 \<Rightarrow> nat \<Rightarrow> nat \<Rightarrow> node_ptr list \<Rightarrow> dasm_state \<Rightarrow> dasm_state option" where
  "evictor_write_pass change_gen check_time_us check_time_user_clocks slot_idx stripe_idx [] s = Some s"
| "evictor_write_pass change_gen check_time_us check_time_user_clocks slot_idx stripe_idx (n # ns) s =
     (case evictor_visit_node change_gen check_time_us check_time_user_clocks slot_idx stripe_idx n s of
        None \<Rightarrow> None
      | Some s \<Rightarrow>
          evictor_write_pass change_gen check_time_us check_time_user_clocks slot_idx stripe_idx ns s)"

text \<open>The read pass: does any node of the slot meet one of the two conditions?\<close>

definition slot_has_work :: "u64 \<Rightarrow> u64 \<Rightarrow> u64 \<Rightarrow> nat \<Rightarrow> dasm_state \<Rightarrow> bool" where
  "slot_has_work change_gen check_time_us check_time_user_clocks slot_idx s =
     list_ex (\<lambda>n. evict_cond check_time_us check_time_user_clocks (node_mem s n) \<or>
                  retry_cond change_gen check_time_us check_time_user_clocks (node_mem s n))
       (slots s slot_idx)"

text \<open>The body of the loop over the slots, for the slot \<open>slot_idx\<close>.\<close>

definition evictor_sweep_slot :: "u64 \<Rightarrow> u64 \<Rightarrow> u64 \<Rightarrow> nat \<Rightarrow> dasm_state \<Rightarrow> dasm_state option" where
  "evictor_sweep_slot change_gen check_time_us check_time_user_clocks slot_idx s =
     (let stripe_idx = slot_idx mod unat (stripes_count s)
      in if slot_has_work change_gen check_time_us check_time_user_clocks slot_idx s
         then evictor_write_pass change_gen check_time_us check_time_user_clocks
                slot_idx stripe_idx (slots s slot_idx) s
         else Some s)"

function evictor_slots_loop :: "u64 \<Rightarrow> u64 \<Rightarrow> u64 \<Rightarrow> nat \<Rightarrow> nat \<Rightarrow> dasm_state \<Rightarrow> dasm_state option" where
  "evictor_slots_loop change_gen check_time_us check_time_user_clocks count slot_idx s =
     (if slot_idx < count
      then (case evictor_sweep_slot change_gen check_time_us check_time_user_clocks slot_idx s of
              None \<Rightarrow> None
            | Some s \<Rightarrow>
                evictor_slots_loop change_gen check_time_us check_time_user_clocks count
                  (slot_idx + 1) s)
      else Some s)"
  by pat_completeness auto
termination
  by (relation "measure (\<lambda>(change_gen, check_time_us, check_time_user_clocks, count, slot_idx, s).
        count - slot_idx)") auto

declare evictor_slots_loop.simps [simp del]

text \<open>
  One sweep of \<open>dasm_evictor_detector_thread__entry_point\<close>: the three snapshots, then
  every slot. No path of the sweep changes \<open>slots_count\<close>, which is read once here.
\<close>

definition dasm_evictor_detector_thread__sweep :: "dasm_state \<Rightarrow> dasm_state option" where
  "dasm_evictor_detector_thread__sweep s =
     (let change_gen = fs_change_gen s;
          (check_time_us, s) = os_now_microseconds s;
          check_time_user_clocks = dasm_user_clock_idx s
      in evictor_slots_loop change_gen check_time_us check_time_user_clocks
           (unat (slots_count s)) 0 s)"

section \<open>The state of the disassembly loop\<close>

text \<open>
  For the statements about the disassembly loop: the instructions a chunk list holds, in
  order; the invariant of a chunk list (its \<open>inst_count\<close> is the number of instructions
  it holds) and of the loop (it has pushed as many instructions as strings); and the
  lines of source text the loop pushes before the instruction at an offset, none when
  the style flags ask for none or the debug info is the nil sentinel.
\<close>

definition chunk_list_insts :: "DASM_InstChunkList \<Rightarrow> DASM_Inst list" where
  "chunk_list_insts list = concat (map chunk_v (chunk_nodes list))"

definition chunk_list_ok :: "DASM_InstChunkList \<Rightarrow> bool" where
  "chunk_list_ok list \<longleftrightarrow> inst_count list = length (chunk_list_insts list)"

definition acc_ok :: "DASM_InstChunkList \<times> u8 list list \<Rightarrow> bool" where
  "acc_ok acc \<longleftrightarrow> chunk_list_ok (fst acc) \<and> length (chunk_list_insts (fst acc)) = length (snd acc)"

definition source_lines_before :: "parse_env \<Rightarrow> u64 \<Rightarrow> DASM_Params \<Rightarrow> nat \<Rightarrow> u8 list list" where
  "source_lines_before env rdi params off =
     (if style_flags params AND
           (DASM_StyleFlag_SourceFilesNames OR DASM_StyleFlag_SourceLines) \<noteq> 0
         \<and> rdi \<noteq> di_rdi_parsed_nil env
      then source_line_strings env rdi params off
      else [])"

section \<open>What a sweep leaves and what it takes\<close>

text \<open>
  For the statements about the evictor: the parts of the state that the ring operations
  leave as they were; node memories that differ only in the two fields a re-queue
  assigns; the arenas that evicting a list of nodes releases, in order; and the nodes of
  a slot that meet the eviction condition.
\<close>

definition table_frame :: "dasm_state \<Rightarrow> dasm_state \<Rightarrow> bool" where
  "table_frame s s' \<longleftrightarrow> slots s' = slots s \<and> stripes s' = stripes s \<and> node_mem s' = node_mem s \<and>
     arenas_released s' = arenas_released s \<and> stripes_count s' = stripes_count s \<and>
     u2p_ring_cv s' = u2p_ring_cv s \<and> cv_broadcasts s' = cv_broadcasts s"

definition requested_only :: "(node_ptr \<Rightarrow> DASM_Node) \<Rightarrow> (node_ptr \<Rightarrow> DASM_Node) \<Rightarrow> bool" where
  "requested_only m m' \<longleftrightarrow>
     (\<forall>n. \<exists>a b. m' n = (m n)\<lparr>node_last_time_requested_us := a,
                               node_last_user_clock_idx_requested := b\<rparr>)"

definition released_arenas :: "(node_ptr \<Rightarrow> DASM_Node) \<Rightarrow> node_ptr list \<Rightarrow> arena_id list" where
  "released_arenas mem ns =
     concat (map (\<lambda>n. case node_info_arena (mem n) of None \<Rightarrow> [] | Some a \<Rightarrow> [a]) ns)"





section \<open>Example values\<close>

text \<open>
  The request of the spec's first scenario (hash \<open>(1, 2)\<close>, no debug-info key, x64,
  addresses, Intel), the state right after \<open>dasm_init\<close> on a machine with 8 cores and
  with the file system at change generation 1, and that state with the request's node
  committed in its slot.
\<close>

definition example_params :: DASM_Params where
  "example_params = \<lparr>vaddr = 4096, arch = Architecture_x64,
     style_flags = DASM_StyleFlag_Addresses, dasm_syntax = 0, base_vaddr = 0,
     dbgi_key = \<lparr>path = [], min_timestamp = 0\<rparr>\<rparr>"

definition example_info :: DASM_Info where
  "example_info = \<lparr>text_key = (7, 9),
     insts = [\<lparr>code_off = 0, jump_dst_vaddr = 0, text_range = (0, 3)\<rparr>]\<rparr>"

definition example_node :: DASM_Node where
  "example_node = dasm_node_zero\<lparr>node_hash := (1, 2), node_params := example_params,
     node_info_arena := Some 1, node_info := example_info, node_load_count := 1\<rparr>"

definition example_init :: dasm_state where
  "example_init = dasm_init 8 1 2 (\<lambda>i. 0) 1"

definition example_state :: dasm_state where
  "example_state = example_init
     \<lparr>slots := (\<lambda>slot_idx. [])(2 := [(2, 0)]),
      stripes := (\<lambda>stripe_idx. \<lparr>stripe_arena_nodes = 0, free_node = []\<rparr>)
                   (2 := \<lparr>stripe_arena_nodes = 1, free_node = []\<rparr>),
      node_mem := (\<lambda>n. dasm_node_zero)((2, 0) := example_node),
      arenas_allocated := 2\<rparr>"

text \<open>
  The second state ten user clocks and twenty seconds later, untouched (the spec's
  scenario S4); and a state in which the node was committed with source lines under
  change generation 1, has been idle as long, and the file system has since moved to
  change generation 2.
\<close>

definition example_idle_state :: dasm_state where
  "example_idle_state = example_state\<lparr>user_clock_idx := 20, os_time := (\<lambda>i. 20000000)\<rparr>"

definition example_stale_params :: DASM_Params where
  "example_stale_params = example_params
     \<lparr>style_flags := DASM_StyleFlag_Addresses OR DASM_StyleFlag_SourceLines,
      dbgi_key := \<lparr>path = [47, 97], min_timestamp = 5\<rparr>\<rparr>"

definition example_stale_state :: dasm_state where
  "example_stale_state = example_idle_state
     \<lparr>node_mem := (\<lambda>n. dasm_node_zero)
        ((2, 0) := example_node\<lparr>node_params := example_stale_params, node_change_gen := 1\<rparr>),
      fs_change_gen := 2\<rparr>"

text \<open>
  Answers of the layers below for the examples: debug info with the handle 7 (the nil
  sentinel has the handle 0), two bytes of code, a decoder that reads one byte per
  instruction, one line of source text before the first instruction, got from the text
  layer at the first poll, and the rendered line \<open>nop\<close>.
\<close>

definition example_env :: parse_env where
  "example_env = \<lparr>di_rdi_parsed_nil = 0,
     di_rdi_from_key = (\<lambda>key. 7),
     hs_data_from_hash = (\<lambda>hash. [144, 144]),
     hs_hash_from_data = (\<lambda>data. (7, 9)),
     ud_disassemble = (\<lambda>data off. (1, 0)),
     source_line_strings = (\<lambda>rdi params off. if off = 0 then [[62, 32, 97]] else []),
     source_line_clock_reads = (\<lambda>rdi params off. if off = 0 then Some 1 else Some 0),
     inst_string_at = (\<lambda>rdi params data off. [110, 111, 112])\<rparr>"

section \<open>Properties of the linear scan\<close>

lemma linear_scan_loop_no_match:
  "(\<And>i. idx \<le> i \<Longrightarrow> i < length array \<Longrightarrow> code_off (array ! i) \<noteq> off)
   \<Longrightarrow> linear_scan_loop array off idx = 0"
proof (induction array off idx rule: linear_scan_loop.induct)
  case (1 array off idx)
  show ?case
  proof (cases "idx < length array")
    case True
    with "1.prems" [of idx] have ne: "code_off (array ! idx) \<noteq> off" by simp
    have "linear_scan_loop array off (idx + 1) = 0"
      using True ne "1.prems" by (intro "1.IH") auto
    with True ne show ?thesis by (subst linear_scan_loop.simps) simp
  next
    case False
    then show ?thesis by (subst linear_scan_loop.simps) simp
  qed
qed

lemma linear_scan_loop_match:
  "idx \<le> k \<Longrightarrow> k < length array \<Longrightarrow> code_off (array ! k) = off
   \<Longrightarrow> (\<And>j. idx \<le> j \<Longrightarrow> j < k \<Longrightarrow> code_off (array ! j) \<noteq> off)
   \<Longrightarrow> linear_scan_loop array off idx = k"
proof (induction array off idx rule: linear_scan_loop.induct)
  case (1 array off idx)
  from "1.prems"(1,2) have lt: "idx < length array" by simp
  show ?case
  proof (cases "code_off (array ! idx) = off")
    case True
    have "\<not> idx < k" using "1.prems"(4) [of idx] True by auto
    with "1.prems"(1) have "idx = k" by simp
    with lt True show ?thesis by (subst linear_scan_loop.simps) simp
  next
    case False
    with "1.prems"(1,3) have "idx \<noteq> k" by auto
    with "1.prems"(1) have le: "idx + 1 \<le> k" by simp
    have "linear_scan_loop array off (idx + 1) = k"
      using lt False le "1.prems"(2,3,4) by (intro "1.IH") auto
    with lt False show ?thesis by (subst linear_scan_loop.simps) simp
  qed
qed

text \<open>
  C10. \<open>dasm_inst_array_idx_from_code_off__linear_scan\<close> returns the smallest index whose
  \<open>code_off\<close> equals the offset, and 0 when no element matches; so the value 0 is returned
  both for a match at index 0 and for no match at all (the one-element array whose
  element has \<open>code_off = 0\<close>, searched for 0 and for 1).
\<close>

theorem linear_scan_smallest_index_or_zero:
  "(k < length array \<and> code_off (array ! k) = off \<and> (\<forall>j<k. code_off (array ! j) \<noteq> off)
      \<longrightarrow> dasm_inst_array_idx_from_code_off__linear_scan array off = k)
   \<and> ((\<forall>i<length array. code_off (array ! i) \<noteq> off)
      \<longrightarrow> dasm_inst_array_idx_from_code_off__linear_scan array off = 0)
   \<and> dasm_inst_array_idx_from_code_off__linear_scan
        [\<lparr>code_off = 0, jump_dst_vaddr = 0, text_range = (0, 0)\<rparr>] 0 = 0
   \<and> dasm_inst_array_idx_from_code_off__linear_scan
        [\<lparr>code_off = 0, jump_dst_vaddr = 0, text_range = (0, 0)\<rparr>] 1 = 0"
proof (intro conjI impI)
  assume "k < length array \<and> code_off (array ! k) = off \<and> (\<forall>j<k. code_off (array ! j) \<noteq> off)"
  then show "dasm_inst_array_idx_from_code_off__linear_scan array off = k"
    unfolding dasm_inst_array_idx_from_code_off__linear_scan_def
    by (intro linear_scan_loop_match) auto
next
  assume "\<forall>i<length array. code_off (array ! i) \<noteq> off"
  then show "dasm_inst_array_idx_from_code_off__linear_scan array off = 0"
    unfolding dasm_inst_array_idx_from_code_off__linear_scan_def
    by (intro linear_scan_loop_no_match) auto
next
  show "dasm_inst_array_idx_from_code_off__linear_scan
        [\<lparr>code_off = 0, jump_dst_vaddr = 0, text_range = (0, 0)\<rparr>] 0 = 0"
    unfolding dasm_inst_array_idx_from_code_off__linear_scan_def
    by (intro linear_scan_loop_match) auto
next
  show "dasm_inst_array_idx_from_code_off__linear_scan
        [\<lparr>code_off = 0, jump_dst_vaddr = 0, text_range = (0, 0)\<rparr>] 1 = 0"
    unfolding dasm_inst_array_idx_from_code_off__linear_scan_def
    by (intro linear_scan_loop_no_match) auto
qed

theorem linear_scan_smallest_index_or_zero_witness:
  "dasm_inst_array_idx_from_code_off__linear_scan
     [\<lparr>code_off = 5, jump_dst_vaddr = 0, text_range = (0, 0)\<rparr>,
      \<lparr>code_off = 7, jump_dst_vaddr = 0, text_range = (0, 0)\<rparr>,
      \<lparr>code_off = 7, jump_dst_vaddr = 0, text_range = (0, 0)\<rparr>] 7 = 1
   \<and> dasm_inst_array_idx_from_code_off__linear_scan
     [\<lparr>code_off = 5, jump_dst_vaddr = 0, text_range = (0, 0)\<rparr>] 9 = 0"
proof -
  let ?a = "[\<lparr>code_off = 5, jump_dst_vaddr = 0, text_range = (0, 0)\<rparr>,
      \<lparr>code_off = 7, jump_dst_vaddr = 0, text_range = (0, 0)\<rparr>,
      \<lparr>code_off = (7::u64), jump_dst_vaddr = (0::u64), text_range = (0::u64, 0::u64)\<rparr>]"
  let ?b = "[\<lparr>code_off = (5::u64), jump_dst_vaddr = (0::u64), text_range = (0::u64, 0::u64)\<rparr>]"
  have h1: "1 < length ?a \<and> code_off (?a ! 1) = 7 \<and> (\<forall>j<1. code_off (?a ! j) \<noteq> 7)"
    by simp
  have h2: "\<forall>i<length ?b. code_off (?b ! i) \<noteq> 9"
    by simp
  from linear_scan_smallest_index_or_zero [of 1 ?a 7] h1
  have r1: "dasm_inst_array_idx_from_code_off__linear_scan ?a 7 = 1" by blast
  from linear_scan_smallest_index_or_zero [of 0 ?b 9] h2
  have r2: "dasm_inst_array_idx_from_code_off__linear_scan ?b 9 = 0" by blast
  from r1 r2 show ?thesis by simp
qed

section \<open>Properties of the lookups\<close>

text \<open>
  C6. A call of \<open>dasm_info_from_hash_params\<close> with the zero hash returns, for every scope
  and every parameters, an empty \<open>DASM_Info\<close> (no instructions) and the state it was
  given: no node is created in any slot, nothing is put on the ring, and the table is as
  it was.
\<close>

theorem info_from_hash_params_zero_hash:
  "dasm_info_from_hash_params scope (0, 0) params s = Some (dasm_info_zero, s)
   \<and> insts dasm_info_zero = []"
  by (simp add: dasm_info_from_hash_params_def u128_match_def u128_zero_def dasm_info_zero_def)

lemma key_loop_done:
  "info_from_key_params_loop hs scope key params (Suc (Suc 0)) result hash_out s
     = Some (result, hash_out, s)"
  by (subst info_from_key_params_loop.simps) simp

lemma key_loop_second:
  "dasm_info_from_hash_params scope (hs key 1) params s = Some (r1, s1) \<Longrightarrow>
   info_from_key_params_loop hs scope key params (Suc 0) result hash_out s =
     (if insts r1 \<noteq> []
      then Some (r1, (case hash_out of None \<Rightarrow> None | Some old \<Rightarrow> Some (hs key 1)), s1)
      else Some (r1, hash_out, s1))"
  by (subst info_from_key_params_loop.simps) (simp add: key_loop_done)

lemma key_loop_first:
  "dasm_info_from_hash_params scope (hs key 0) params s = Some (r0, s0) \<Longrightarrow>
   info_from_key_params_loop hs scope key params 0 result hash_out s =
     (if insts r0 \<noteq> []
      then Some (r0, (case hash_out of None \<Rightarrow> None | Some old \<Rightarrow> Some (hs key 0)), s0)
      else info_from_key_params_loop hs scope key params (Suc 0) r0 hash_out s0)"
  by (subst info_from_key_params_loop.simps) simp

lemma example_lookup_hit:
  "\<exists>s'. dasm_info_from_hash_params 0 (1, 2) example_params example_state
           = Some (example_info, s')"
  by (simp add: dasm_info_from_hash_params_def u128_match_def u128_zero_def example_state_def
      example_init_def dasm_init_def slot_idx_from_hash_def stripe_idx_from_slot_def
      example_node_def dasm_params_match_def di_key_match_def example_params_def)

lemma example_lookup_miss:
  "\<exists>s'. dasm_info_from_hash_params 0 (1, 2) example_params example_init
           = Some (dasm_info_zero, s')"
  apply (simp add: dasm_info_from_hash_params_def u128_match_def u128_zero_def example_init_def
      dasm_init_def slot_idx_from_hash_def stripe_idx_from_slot_def dasm_u2p_enqueue_req_def)
  apply (subst u2p_enqueue_loop.simps)
  apply (simp add: u2p_enqueue_has_room_def slot_create_node_def node_update_def
      example_params_def split: prod.splits)
  done

text \<open>
  C1. \<open>dasm_info_from_key_params\<close>, called with a non-null \<open>hash_out\<close>, looks up the hash of
  rewind 0; when that result has instructions it is returned, with its hash in
  \<open>hash_out\<close> and the state that the first lookup left (the hash of rewind 1 is not looked
  up). When the first result is empty, the hash of rewind 1 is looked up in the state the
  first lookup left, and a result with instructions is returned with its hash in
  \<open>hash_out\<close>.
\<close>

theorem info_from_key_params_first_nonempty:
  assumes first: "dasm_info_from_hash_params scope (hs_hash_from_key key 0) params s = Some (r0, s0)"
  shows "(insts r0 \<noteq> [] \<longrightarrow>
            dasm_info_from_key_params hs_hash_from_key scope key params (Some old) s
              = Some (r0, Some (hs_hash_from_key key 0), s0))
       \<and> (insts r0 = [] \<and>
            dasm_info_from_hash_params scope (hs_hash_from_key key 1) params s0 = Some (r1, s1) \<and>
            insts r1 \<noteq> [] \<longrightarrow>
            dasm_info_from_key_params hs_hash_from_key scope key params (Some old) s
              = Some (r1, Some (hs_hash_from_key key 1), s1))"
proof (intro conjI impI)
  assume "insts r0 \<noteq> []"
  then show "dasm_info_from_key_params hs_hash_from_key scope key params (Some old) s
      = Some (r0, Some (hs_hash_from_key key 0), s0)"
    by (simp add: dasm_info_from_key_params_def
        key_loop_first [where hs = hs_hash_from_key and key = key, OF first])
next
  assume h: "insts r0 = [] \<and>
    dasm_info_from_hash_params scope (hs_hash_from_key key 1) params s0 = Some (r1, s1) \<and>
    insts r1 \<noteq> []"
  then have second:
    "dasm_info_from_hash_params scope (hs_hash_from_key key 1) params s0 = Some (r1, s1)"
    by simp
  from h show "dasm_info_from_key_params hs_hash_from_key scope key params (Some old) s
      = Some (r1, Some (hs_hash_from_key key 1), s1)"
    by (simp add: dasm_info_from_key_params_def
        key_loop_first [where hs = hs_hash_from_key and key = key, OF first]
        key_loop_second [where hs = hs_hash_from_key and key = key, OF second])
qed

text \<open>
  The witness: on the state with the node of hash \<open>(1, 2)\<close> committed, a hash store that
  answers \<open>(1, 2)\<close> at rewind 0, and the hash store of the spec's scenario S3, which
  answers zero at rewind 0 and \<open>(1, 2)\<close> at rewind 1.
\<close>

theorem info_from_key_params_first_nonempty_witness:
  "(\<exists>s'. dasm_info_from_key_params (\<lambda>key rewind_idx. (1, 2)) 0 (5, 5) example_params
            (Some (0, 0)) example_state = Some (example_info, Some (1, 2), s'))
   \<and> (\<exists>s'. dasm_info_from_key_params
            (\<lambda>key rewind_idx. if rewind_idx = 0 then (0, 0) else (1, 2)) 0 (5, 5) example_params
            (Some (0, 0)) example_state = Some (example_info, Some (1, 2), s'))"
proof -
  let ?hs1 = "\<lambda>(key :: u128) (rewind_idx :: u64). (1 :: u64, 2 :: u64)"
  let ?hs2 = "\<lambda>(key :: u128) (rewind_idx :: u64).
                if rewind_idx = 0 then (0 :: u64, 0 :: u64) else (1, 2)"
  obtain s' where hit:
    "dasm_info_from_hash_params 0 (1, 2) example_params example_state = Some (example_info, s')"
    using example_lookup_hit by blast
  have ne: "insts example_info \<noteq> []"
    by (simp add: example_info_def)
  have first1: "dasm_info_from_hash_params 0 (?hs1 (5, 5) 0) example_params example_state
      = Some (example_info, s')"
    using hit by simp
  from info_from_key_params_first_nonempty [where hs_hash_from_key = ?hs1 and key = "(5, 5)"
      and old = "(0, 0)", OF first1] ne
  have a: "dasm_info_from_key_params ?hs1 0 (5, 5) example_params (Some (0, 0)) example_state
      = Some (example_info, Some (1, 2), s')"
    by simp
  have first2: "dasm_info_from_hash_params 0 (?hs2 (5, 5) 0) example_params example_state
      = Some (dasm_info_zero, example_state)"
    by (simp add: dasm_info_from_hash_params_def u128_match_def u128_zero_def)
  have second2: "insts dasm_info_zero = [] \<and>
      dasm_info_from_hash_params 0 (?hs2 (5, 5) 1) example_params example_state
        = Some (example_info, s') \<and> insts example_info \<noteq> []"
    using hit ne by (simp add: dasm_info_zero_def)
  from info_from_key_params_first_nonempty [where hs_hash_from_key = ?hs2 and key = "(5, 5)"
      and old = "(0, 0)" and ?r1.0 = example_info and ?s1.0 = s', OF first2] second2
  have b: "dasm_info_from_key_params ?hs2 0 (5, 5) example_params (Some (0, 0)) example_state
      = Some (example_info, Some (1, 2), s')"
    by simp
  from a b show ?thesis by blast
qed

text \<open>
  C9. When the lookups of rewind 0 and of rewind 1 both return an empty \<open>DASM_Info\<close>,
  \<open>dasm_info_from_key_params\<close> returns with \<open>hash_out\<close> as it was given (a null pointer,
  or a cell with its old value).
\<close>

theorem info_from_key_params_both_empty:
  assumes first: "dasm_info_from_hash_params scope (hs_hash_from_key key 0) params s = Some (r0, s0)"
    and e0: "insts r0 = []"
    and second: "dasm_info_from_hash_params scope (hs_hash_from_key key 1) params s0 = Some (r1, s1)"
    and e1: "insts r1 = []"
  shows "dasm_info_from_key_params hs_hash_from_key scope key params hash_out s
              = Some (r1, hash_out, s1)"
  using e0 e1
  by (simp add: dasm_info_from_key_params_def
        key_loop_first [where hs = hs_hash_from_key and key = key, OF first]
        key_loop_second [where hs = hs_hash_from_key and key = key, OF second])

text \<open>
  The witness: right after \<open>dasm_init\<close>, the hash of rewind 0 is \<open>(1, 2)\<close> (a miss, which
  creates the node and returns empty) and the hash of rewind 1 is zero; the cell of
  \<open>hash_out\<close> holds \<open>(9, 9)\<close> before and after.
\<close>

theorem info_from_key_params_both_empty_witness:
  "\<exists>s'. dasm_info_from_key_params
            (\<lambda>key rewind_idx. if rewind_idx = 0 then (1, 2) else (0, 0)) 0 (5, 5) example_params
            (Some (9, 9)) example_init = Some (dasm_info_zero, Some (9, 9), s')"
proof -
  let ?hs = "\<lambda>(key :: u128) (rewind_idx :: u64).
                if rewind_idx = 0 then (1 :: u64, 2 :: u64) else (0, 0)"
  obtain s' where miss:
    "dasm_info_from_hash_params 0 (1, 2) example_params example_init = Some (dasm_info_zero, s')"
    using example_lookup_miss by blast
  have first: "dasm_info_from_hash_params 0 (?hs (5, 5) 0) example_params example_init
      = Some (dasm_info_zero, s')"
    using miss by simp
  have e: "insts dasm_info_zero = []"
    by (simp add: dasm_info_zero_def)
  have second: "dasm_info_from_hash_params 0 (?hs (5, 5) 1) example_params s'
      = Some (dasm_info_zero, s')"
    by (simp add: dasm_info_from_hash_params_def u128_match_def u128_zero_def)
  from info_from_key_params_both_empty [where hs_hash_from_key = ?hs and key = "(5, 5)"
      and hash_out = "Some (9, 9)", OF first e second e]
  have "dasm_info_from_key_params ?hs 0 (5, 5) example_params (Some (9, 9)) example_init
      = Some (dasm_info_zero, Some (9, 9), s')" .
  then show ?thesis by blast
qed

section \<open>Properties of the request ring\<close>

lemma ring_write_cong:
  "p mod sz = q mod sz \<Longrightarrow> ring_write base sz p xs = ring_write base sz q xs"
proof (induction xs arbitrary: base p q)
  case Nil
  then show ?case by simp
next
  case (Cons x xs)
  from Cons.prems have "(p + 1) mod sz = (q + 1) mod sz"
    by (rule mod_add_cong) simp
  then have "ring_write (base(p mod sz := x)) sz (p + 1) xs
      = ring_write (base(p mod sz := x)) sz (q + 1) xs"
    by (rule Cons.IH)
  with Cons.prems show ?case by simp
qed

lemma ring_read_cong:
  "p mod sz = q mod sz \<Longrightarrow> ring_read base sz p n = ring_read base sz q n"
proof (induction n arbitrary: p q)
  case 0
  then show ?case by simp
next
  case (Suc n)
  from Suc.prems have "(p + 1) mod sz = (q + 1) mod sz"
    by (rule mod_add_cong) simp
  then have "ring_read base sz (p + 1) n = ring_read base sz (q + 1) n"
    by (rule Suc.IH)
  with Suc.prems show ?case by simp
qed

lemma ring_write_append:
  "ring_write base sz pos (xs @ ys) = ring_write (ring_write base sz pos xs) sz (pos + length xs) ys"
  by (induction xs arbitrary: base pos) simp_all

lemma ring_read_add:
  "ring_read base sz pos (m + n) = ring_read base sz pos m @ ring_read base sz (pos + m) n"
  by (induction m arbitrary: pos) simp_all

lemma length_ring_read [simp]: "length (ring_read base sz pos n) = n"
  by (induction n arbitrary: pos) simp_all

lemma mod_shift_neq:
  fixes sz :: nat
  assumes "0 < k" "k < sz"
  shows "(pos + k) mod sz \<noteq> pos mod sz"
proof
  assume "(pos + k) mod sz = pos mod sz"
  then have "sz dvd (pos + k) - pos"
    by (simp add: mod_eq_dvd_iff_nat)
  then have "sz dvd k" by simp
  with assms show False by (simp add: nat_dvd_not_less)
qed

lemma ring_write_other:
  "(\<And>i. i < length xs \<Longrightarrow> (p + i) mod sz \<noteq> a) \<Longrightarrow> ring_write base sz p xs a = base a"
proof (induction xs arbitrary: base p)
  case Nil
  then show ?case by simp
next
  case (Cons x xs)
  have "ring_write (base(p mod sz := x)) sz (p + 1) xs a = (base(p mod sz := x)) a"
  proof (rule Cons.IH)
    fix i assume "i < length xs"
    then show "(p + 1 + i) mod sz \<noteq> a"
      using Cons.prems [of "Suc i"] by simp
  qed
  moreover have "p mod sz \<noteq> a" using Cons.prems [of 0] by simp
  ultimately show ?case by simp
qed

lemma ring_read_write:
  "length xs \<le> sz \<Longrightarrow> ring_read (ring_write base sz pos xs) sz pos (length xs) = xs"
proof (induction xs arbitrary: base pos)
  case Nil
  then show ?case by simp
next
  case (Cons x xs)
  let ?b = "base(pos mod sz := x)"
  have tail: "ring_read (ring_write ?b sz (pos + 1) xs) sz (pos + 1) (length xs) = xs"
    using Cons.prems by (intro Cons.IH) simp
  have "ring_write ?b sz (pos + 1) xs (pos mod sz) = ?b (pos mod sz)"
  proof (rule ring_write_other)
    fix i assume "i < length xs"
    with Cons.prems have "0 < 1 + i" "1 + i < sz" by simp_all
    then have "(pos + (1 + i)) mod sz \<noteq> pos mod sz" by (rule mod_shift_neq)
    then show "(pos + 1 + i) mod sz \<noteq> pos mod sz" by (simp add: add.assoc)
  qed
  then have head: "ring_write ?b sz (pos + 1) xs (pos mod sz) = x" by simp
  from head tail show ?case by simp
qed

lemma unat_add_of_nat_mod:
  assumes "sz dvd 2 ^ 64"
  shows "unat ((w :: u64) + of_nat n) mod sz = (unat w + n) mod sz"
proof -
  have "unat (w + of_nat n) = (unat w + n) mod 2 ^ 64"
    by (simp add: unat_word_ariths unat_of_nat mod_add_right_eq)
  then show ?thesis using assms by (simp add: mod_mod_cancel)
qed

lemma length_bytes_from_u32 [simp]: "length (bytes_from_u32 w) = 4"
  by (simp add: bytes_from_u32_def)

lemma length_bytes_from_u64 [simp]: "length (bytes_from_u64 w) = 8"
  by (simp add: bytes_from_u64_def)

lemma length_bytes_from_u128 [simp]: "length (bytes_from_u128 w) = 16"
  by (simp add: bytes_from_u128_def)

lemma length_u2p_record_bytes:
  "length (u2p_record_bytes hash params) = 60 + length (path (dbgi_key params))"
  by (simp add: u2p_record_bytes_def)

lemma u2p_write_twice:
  assumes "unat (u2p_ring_size s) dvd 2 ^ 64"
  shows "u2p_write ys (u2p_write xs s) = u2p_write (xs @ ys) s"
proof -
  have "unat (u2p_ring_write_pos s + of_nat (length xs)) mod unat (u2p_ring_size s)
      = (unat (u2p_ring_write_pos s) + length xs) mod unat (u2p_ring_size s)"
    using assms by (rule unat_add_of_nat_mod)
  then have "ring_write b (unat (u2p_ring_size s))
        (unat (u2p_ring_write_pos s + of_nat (length xs))) ys
      = ring_write b (unat (u2p_ring_size s)) (unat (u2p_ring_write_pos s) + length xs) ys" for b
    by (rule ring_write_cong)
  then show ?thesis
    by (simp add: u2p_write_def ring_write_append add.assoc)
qed

lemma u2p_write_size [simp]: "u2p_ring_size (u2p_write xs s) = u2p_ring_size s"
  by (simp add: u2p_write_def)

lemma u2p_write_pos:
  "u2p_ring_write_pos (u2p_write xs s) = u2p_ring_write_pos s + of_nat (length xs)"
  by (simp add: u2p_write_def)

lemma u2p_enqueue_writes_chain:
  assumes "unat (u2p_ring_size s) dvd 2 ^ 64"
  shows "u2p_write (bytes_from_u64 (min_timestamp (dbgi_key params)))
     (u2p_write (path (dbgi_key params))
     (u2p_write (bytes_from_u64 (of_nat (length (path (dbgi_key params)))))
     (u2p_write (bytes_from_u64 (base_vaddr params))
     (u2p_write (bytes_from_u32 (dasm_syntax params))
     (u2p_write (bytes_from_u32 (style_flags params))
     (u2p_write (bytes_from_u32 (arch params))
     (u2p_write (bytes_from_u64 (vaddr params))
     (u2p_write (bytes_from_u128 hash) s))))))))
     = u2p_write (u2p_record_bytes hash params) s"
  unfolding u2p_record_bytes_def
  by (simp only: u2p_write_twice [OF assms] append_assoc)

lemma u2p_enqueue_write_eq:
  assumes "unat (u2p_ring_size s) dvd 2 ^ 64"
  shows "u2p_enqueue_write hash params s =
     (u2p_write (u2p_record_bytes hash params) s)
       \<lparr>u2p_ring_write_pos :=
          u2p_pad (u2p_ring_write_pos s + of_nat (length (u2p_record_bytes hash params)))\<rparr>"
  unfolding u2p_enqueue_write_def Let_def u2p_enqueue_writes_chain [OF assms]
  by (simp add: u2p_write_pos u2p_pad_def)

lemma word_from_le_bytes_inv:
  "word_from_le_bytes (le_bytes_from_word n (w :: 'a::len word)) = take_bit (8 * n) w"
proof (induction n arbitrary: w)
  case 0
  then show ?case by simp
next
  case (Suc n)
  show ?case
    apply (simp add: Suc)
    apply (rule bit_word_eqI)
    apply (auto simp add: bit_simps)
    done
qed

lemma u64_from_bytes [simp]: "word_from_le_bytes (bytes_from_u64 w) = w"
proof -
  have "bytes_from_u64 w = le_bytes_from_word (Suc (Suc (Suc (Suc (Suc (Suc (Suc (Suc 0)))))))) w"
    by (simp add: bytes_from_u64_def drop_bit_drop_bit)
  then show ?thesis
    by (simp only: word_from_le_bytes_inv) (simp add: take_bit_word_eq_self)
qed

lemma u32_from_bytes [simp]: "word_from_le_bytes (bytes_from_u32 w) = w"
proof -
  have "bytes_from_u32 w = le_bytes_from_word (Suc (Suc (Suc (Suc 0)))) w"
    by (simp add: bytes_from_u32_def drop_bit_drop_bit)
  then show ?thesis
    by (simp only: word_from_le_bytes_inv) (simp add: take_bit_word_eq_self)
qed

lemma u128_from_bytes [simp]: "u128_from_bytes (bytes_from_u128 h) = h"
  by (simp add: u128_from_bytes_def bytes_from_u128_def)

lemma u2p_read_piece:
  assumes dvd: "unat (u2p_ring_size t) dvd 2 ^ 64"
    and whole: "ring_read (u2p_ring_base t) (unat (u2p_ring_size t)) (unat rp0) (length bs) = bs"
    and le: "m + n \<le> length bs"
  shows "u2p_read n (t\<lparr>u2p_ring_read_pos := rp0 + of_nat m\<rparr>)
           = (take n (drop m bs), t\<lparr>u2p_ring_read_pos := rp0 + of_nat (m + n)\<rparr>)"
proof -
  let ?b = "u2p_ring_base t" and ?sz = "unat (u2p_ring_size t)"
  from le obtain k where len: "length bs = m + (n + k)"
    by (metis add.assoc le_Suc_ex)
  have "bs = ring_read ?b ?sz (unat rp0) (m + (n + k))"
    using whole len by simp
  also have "\<dots> = ring_read ?b ?sz (unat rp0) m @ ring_read ?b ?sz (unat rp0 + m) n
      @ ring_read ?b ?sz (unat rp0 + m + n) k"
    by (simp add: ring_read_add)
  finally have "take n (drop m bs) = ring_read ?b ?sz (unat rp0 + m) n"
    by (metis append_eq_conv_conj length_ring_read)
  moreover have "ring_read ?b ?sz (unat (rp0 + of_nat m)) n = ring_read ?b ?sz (unat rp0 + m) n"
    by (rule ring_read_cong) (rule unat_add_of_nat_mod [OF dvd])
  ultimately show ?thesis
    by (simp add: u2p_read_def add.assoc)
qed

lemma u2p_dequeue_read_record:
  assumes dvd: "unat (u2p_ring_size t) dvd 2 ^ 64"
    and whole: "ring_read (u2p_ring_base t) (unat (u2p_ring_size t)) (unat (u2p_ring_read_pos t))
                  (length (u2p_record_bytes hash params)) = u2p_record_bytes hash params"
    and small: "length (path (dbgi_key params)) < 2 ^ 64"
  shows "u2p_dequeue_read t =
           (hash, params,
            t\<lparr>u2p_ring_read_pos :=
                u2p_pad (u2p_ring_read_pos t + of_nat (length (u2p_record_bytes hash params)))\<rparr>)"
proof -
  define rp0 where "rp0 = u2p_ring_read_pos t"
  define T where "T = (\<lambda>m. t\<lparr>u2p_ring_read_pos := rp0 + of_nat m\<rparr>)"
  define len where "len = length (path (dbgi_key params))"
  let ?bs = "u2p_record_bytes hash params"
  have t0: "t = T 0" by (simp add: T_def rp0_def)
  have piece: "m + n \<le> length ?bs \<Longrightarrow> u2p_read n (T m) = (take n (drop m ?bs), T (m + n))" for m n
    unfolding T_def using dvd whole by (intro u2p_read_piece) (simp_all add: rp0_def)
  have lbs: "length ?bs = 60 + len" by (simp add: length_u2p_record_bytes len_def)
  have r1: "u2p_read 16 (T 0) = (bytes_from_u128 hash, T 16)"
    using piece [of 0 16] by (simp add: lbs) (simp add: u2p_record_bytes_def)
  have r2: "u2p_read 8 (T 16) = (bytes_from_u64 (vaddr params), T 24)"
    using piece [of 16 8] by (simp add: lbs) (simp add: u2p_record_bytes_def)
  have r3: "u2p_read 4 (T 24) = (bytes_from_u32 (arch params), T 28)"
    using piece [of 24 4] by (simp add: lbs) (simp add: u2p_record_bytes_def)
  have r4: "u2p_read 4 (T 28) = (bytes_from_u32 (style_flags params), T 32)"
    using piece [of 28 4] by (simp add: lbs) (simp add: u2p_record_bytes_def)
  have r5: "u2p_read 4 (T 32) = (bytes_from_u32 (dasm_syntax params), T 36)"
    using piece [of 32 4] by (simp add: lbs) (simp add: u2p_record_bytes_def)
  have r6: "u2p_read 8 (T 36) = (bytes_from_u64 (base_vaddr params), T 44)"
    using piece [of 36 8] by (simp add: lbs) (simp add: u2p_record_bytes_def)
  have r7: "u2p_read 8 (T 44) = (bytes_from_u64 (of_nat len), T 52)"
    using piece [of 44 8] by (simp add: lbs) (simp add: u2p_record_bytes_def len_def)
  have r8: "u2p_read len (T 52) = (path (dbgi_key params), T (52 + len))"
    using piece [of 52 len] by (simp add: lbs) (simp add: u2p_record_bytes_def len_def)
  have r9: "u2p_read 8 (T (52 + len)) = (bytes_from_u64 (min_timestamp (dbgi_key params)), T (60 + len))"
    using piece [of "52 + len" 8] by (simp add: lbs) (simp add: u2p_record_bytes_def len_def)
  have ulen: "unat (word_from_le_bytes (bytes_from_u64 (of_nat len)) :: u64) = len"
    using small by (simp add: len_def unat_of_nat)
  have rd: "u2p_dequeue_read (T 0) =
    (u128_from_bytes (bytes_from_u128 hash),
     \<lparr>vaddr = word_from_le_bytes (bytes_from_u64 (vaddr params)),
      arch = word_from_le_bytes (bytes_from_u32 (arch params)),
      style_flags = word_from_le_bytes (bytes_from_u32 (style_flags params)),
      dasm_syntax = word_from_le_bytes (bytes_from_u32 (dasm_syntax params)),
      base_vaddr = word_from_le_bytes (bytes_from_u64 (base_vaddr params)),
      dbgi_key = \<lparr>path = path (dbgi_key params),
        min_timestamp = word_from_le_bytes (bytes_from_u64 (min_timestamp (dbgi_key params)))\<rparr>\<rparr>,
     (T (60 + len))\<lparr>u2p_ring_read_pos := u2p_ring_read_pos (T (60 + len)) + 7\<rparr>
       \<lparr>u2p_ring_read_pos :=
          u2p_ring_read_pos ((T (60 + len))\<lparr>u2p_ring_read_pos := u2p_ring_read_pos (T (60 + len)) + 7\<rparr>)
          - u2p_ring_read_pos ((T (60 + len))\<lparr>u2p_ring_read_pos := u2p_ring_read_pos (T (60 + len)) + 7\<rparr>) mod 8\<rparr>)"
    unfolding u2p_dequeue_read_def
    by (simp only: Let_def r1 r2 r3 r4 r5 r6 r7 r8 r9 ulen prod.case)
  show ?thesis
    unfolding t0 [symmetric] rd [unfolded t0 [symmetric]]
    by (simp add: T_def rp0_def lbs u2p_pad_def)
qed

lemma dvd_size_le:
  assumes "unat (w :: u64) dvd 2 ^ 64"
  shows "unat w \<le> 2 ^ 63"
proof -
  from assms obtain k where k: "(2::nat) ^ 64 = unat w * k" by (auto simp: dvd_def)
  have lt: "unat w < 2 ^ 64" using unsigned_less [of w] by simp
  have "k \<noteq> 0" using k by (cases k) auto
  moreover have "k \<noteq> 1" using k lt by auto
  ultimately have "2 \<le> k" by simp
  then have "unat w * 2 \<le> unat w * k" by simp
  with k show ?thesis by simp
qed

lemma u2p_pad_mod8: "u2p_pad p mod 8 = 0"
proof -
  have "unat ((p + 7) mod 8) \<le> unat (p + 7)" by (simp add: unat_mod)
  then have le: "(p + 7) mod 8 \<le> p + 7" by (simp only: word_le_nat_alt)
  have "unat (u2p_pad p) = unat (p + 7) - unat (p + 7) mod 8"
    unfolding u2p_pad_def using le by (simp add: unat_sub unat_mod)
  then have "unat (u2p_pad p) mod 8 = 0"
    by (simp add: minus_mod_self2 )
  then have "unat (u2p_pad p mod 8) = unat (0 :: u64)" by (simp add: unat_mod)
  then show ?thesis by (simp only: unat_eq_0 unsigned_0)
qed

lemma u2p_pad_ge:
  assumes "60 \<le> L" "L + 7 < 2 ^ 64"
  shows "(60 :: u64) \<le> u2p_pad (wp + of_nat L) - wp"
proof -
  let ?d = "(wp + of_nat L + 7) mod 8"
  have d: "unat ?d < 8" by (simp add: unat_mod)
  have eq: "u2p_pad (wp + of_nat L) - wp = (of_nat L + 7) - ?d"
    by (simp add: u2p_pad_def)
  have u: "unat (of_nat L + 7 :: u64) = L + 7"
    using assms by (simp add: unat_word_ariths unat_of_nat)
  have "?d \<le> of_nat L + 7"
    using d u assms by (simp add: word_le_nat_alt)
  then have "unat ((of_nat L + 7) - ?d) = L + 7 - unat ?d"
    by (simp add: unat_sub u)
  with d assms have "60 \<le> unat ((of_nat L + 7) - ?d)" by simp
  then show ?thesis unfolding eq by (simp add: word_le_nat_alt)
qed

lemma u2p_has_room_empty:
  assumes dvd: "unat (u2p_ring_size s) dvd 2 ^ 64"
    and empty: "u2p_ring_read_pos s = u2p_ring_write_pos s"
    and fits: "60 + length (path (dbgi_key params)) \<le> unat (u2p_ring_size s)"
  shows "u2p_enqueue_has_room params s"
proof -
  let ?len = "length (path (dbgi_key params))"
  have "unat (u2p_ring_size s) < 2 ^ 64" using unsigned_less [of "u2p_ring_size s"] by simp
  with fits have "unat (60 + of_nat ?len :: u64) = 60 + ?len"
    by (simp add: unat_word_ariths unat_of_nat)
  with fits have "(60 + of_nat ?len :: u64) \<le> u2p_ring_size s"
    by (simp add: word_le_nat_alt)
  then show ?thesis
    by (simp add: u2p_enqueue_has_room_def empty ac_simps)
qed

lemma u2p_enqueue_req_empty:
  assumes dvd: "unat (u2p_ring_size s) dvd 2 ^ 64"
    and empty: "u2p_ring_read_pos s = u2p_ring_write_pos s"
    and fits: "60 + length (path (dbgi_key params)) \<le> unat (u2p_ring_size s)"
  shows "dasm_u2p_enqueue_req hash params endt_us s =
           Some (True, os_condition_variable_broadcast (u2p_ring_cv s)
                         (u2p_enqueue_write hash params s))"
proof -
  have "u2p_enqueue_loop hash params endt_us s = Some (True, u2p_enqueue_write hash params s)"
    using u2p_has_room_empty [OF dvd empty fits]
    by (subst u2p_enqueue_loop.simps) simp
  moreover have "u2p_ring_cv (u2p_enqueue_write hash params s) = u2p_ring_cv s"
    by (simp add: u2p_enqueue_write_eq [OF dvd] u2p_write_def)
  ultimately show ?thesis
    by (simp add: dasm_u2p_enqueue_req_def)
qed

lemma u2p_enqueue_dequeue_empty:
  fixes s :: dasm_state and hash :: u128 and params :: DASM_Params
  assumes dvd: "unat (u2p_ring_size s) dvd 2 ^ 64"
    and empty: "u2p_ring_read_pos s = u2p_ring_write_pos s"
    and fits: "60 + length (path (dbgi_key params)) \<le> unat (u2p_ring_size s)"
  defines "w \<equiv> u2p_enqueue_write hash params s"
  defines "s1 \<equiv> os_condition_variable_broadcast (u2p_ring_cv s) w"
  defines "r \<equiv> s1\<lparr>u2p_ring_read_pos :=
      u2p_pad (u2p_ring_read_pos s + of_nat (60 + length (path (dbgi_key params))))\<rparr>"
  shows "dasm_u2p_enqueue_req hash params endt_us s = Some (True, s1)"
    and "dasm_u2p_dequeue_req s1 =
           Some (hash, params, os_condition_variable_broadcast (u2p_ring_mutex s) r)"
    and "u2p_ring_write_pos s1 =
           u2p_pad (u2p_ring_write_pos s + of_nat (60 + length (path (dbgi_key params))))"
    and "cv_broadcasts s1 = cv_broadcasts s @ [u2p_ring_cv s]"
proof -
  let ?bs = "u2p_record_bytes hash params"
  let ?L = "60 + length (path (dbgi_key params))"
  let ?sz = "unat (u2p_ring_size s)"
  have lbs: "length ?bs = ?L" by (rule length_u2p_record_bytes)
  have w_eq: "w = (u2p_write ?bs s)\<lparr>u2p_ring_write_pos := u2p_pad (u2p_ring_write_pos s + of_nat ?L)\<rparr>"
    by (simp add: w_def u2p_enqueue_write_eq [OF dvd] lbs)
  have sz1: "u2p_ring_size s1 = u2p_ring_size s"
    and rp1: "u2p_ring_read_pos s1 = u2p_ring_write_pos s"
    and wp1: "u2p_ring_write_pos s1 = u2p_pad (u2p_ring_write_pos s + of_nat ?L)"
    and base1: "u2p_ring_base s1 = ring_write (u2p_ring_base s) ?sz (unat (u2p_ring_write_pos s)) ?bs"
    and mutex1: "u2p_ring_mutex s1 = u2p_ring_mutex s"
    and bc1: "cv_broadcasts s1 = cv_broadcasts s @ [u2p_ring_cv s]"
    by (simp_all add: s1_def w_eq os_condition_variable_broadcast_def u2p_write_def empty)
  show enq: "dasm_u2p_enqueue_req hash params endt_us s = Some (True, s1)"
    unfolding s1_def w_def by (rule u2p_enqueue_req_empty [OF dvd empty fits])
  have small: "?L + 7 < 2 ^ 64"
    using fits dvd_size_le [OF dvd] by simp
  have "(60 :: u64) \<le> u2p_pad (u2p_ring_write_pos s + of_nat ?L) - u2p_ring_write_pos s"
    using small by (intro u2p_pad_ge) simp_all
  then have has: "u2p_dequeue_has_record s1"
    by (simp add: u2p_dequeue_has_record_def wp1 rp1)
  have whole: "ring_read (u2p_ring_base s1) (unat (u2p_ring_size s1)) (unat (u2p_ring_read_pos s1))
      (length ?bs) = ?bs"
    unfolding sz1 rp1 base1 using fits by (intro ring_read_write) (simp add: lbs)
  have dvd1: "unat (u2p_ring_size s1) dvd 2 ^ 64"
    unfolding sz1 by (rule dvd)
  have small': "length (path (dbgi_key params)) < 2 ^ 64"
    using small by simp
  have "u2p_dequeue_read s1 = (hash, params,
      s1\<lparr>u2p_ring_read_pos := u2p_pad (u2p_ring_read_pos s1 + of_nat (length ?bs))\<rparr>)"
    by (rule u2p_dequeue_read_record [OF dvd1 whole small'])
  then have rd: "u2p_dequeue_read s1 = (hash, params, r)"
    by (simp add: r_def rp1 lbs empty)
  have "u2p_dequeue_loop s1 = Some (hash, params, r)"
    using has rd by (subst u2p_dequeue_loop.simps) simp
  moreover have "u2p_ring_mutex r = u2p_ring_mutex s"
    by (simp add: r_def mutex1)
  ultimately show "dasm_u2p_dequeue_req s1 =
      Some (hash, params, os_condition_variable_broadcast (u2p_ring_mutex s) r)"
    by (simp add: dasm_u2p_dequeue_req_def)
  show "u2p_ring_write_pos s1 = u2p_pad (u2p_ring_write_pos s + of_nat ?L)"
    by (rule wp1)
  show "cv_broadcasts s1 = cv_broadcasts s @ [u2p_ring_cv s]"
    by (rule bc1)
qed

lemma example_init_ring:
  "unat (u2p_ring_size example_init) dvd 2 ^ 64"
  "u2p_ring_read_pos example_init = u2p_ring_write_pos example_init"
  "u2p_ring_write_pos example_init = 0"
  "unat (u2p_ring_size example_init) = 65536"
proof -
  have "(2::nat) ^ 64 = 65536 * 2 ^ 48" by simp
  then have "(65536::nat) dvd 2 ^ 64" by (rule dvdI)
  then show "unat (u2p_ring_size example_init) dvd 2 ^ 64"
    by (simp add: example_init_def dasm_init_def)
qed (simp_all add: example_init_def dasm_init_def)

text \<open>
  C2. On a ring whose size divides \<open>2 ^ 64\<close> (the 64 KiB of \<open>dasm_init\<close> does) and that
  holds no unconsumed bytes, for every request that fits in the ring (60 bytes and its
  path): the enqueue succeeds, and the dequeue that follows returns the same hash and
  the same parameters, field by field and path byte by path byte. Both sides have moved
  their position past the record, then by 7, then down to a multiple of 8, so the write
  position and the read position are equal afterwards.
\<close>

theorem u2p_ring_round_trip:
  assumes dvd: "unat (u2p_ring_size s) dvd 2 ^ 64"
    and empty: "u2p_ring_read_pos s = u2p_ring_write_pos s"
    and fits: "60 + length (path (dbgi_key params)) \<le> unat (u2p_ring_size s)"
  shows "\<exists>s1 s2.
           dasm_u2p_enqueue_req hash params endt_us s = Some (True, s1) \<and>
           dasm_u2p_dequeue_req s1 = Some (hash, params, s2) \<and>
           u2p_ring_write_pos s1 =
             (u2p_ring_write_pos s + of_nat (60 + length (path (dbgi_key params))) + 7)
             - (u2p_ring_write_pos s + of_nat (60 + length (path (dbgi_key params))) + 7) mod 8 \<and>
           u2p_ring_read_pos s2 =
             (u2p_ring_read_pos s + of_nat (60 + length (path (dbgi_key params))) + 7)
             - (u2p_ring_read_pos s + of_nat (60 + length (path (dbgi_key params))) + 7) mod 8 \<and>
           u2p_ring_write_pos s1 mod 8 = 0 \<and>
           u2p_ring_read_pos s2 = u2p_ring_write_pos s2"
proof -
  note rt = u2p_enqueue_dequeue_empty [OF dvd empty fits]
  let ?s1 = "os_condition_variable_broadcast (u2p_ring_cv s) (u2p_enqueue_write hash params s)"
  let ?s2 = "os_condition_variable_broadcast (u2p_ring_mutex s)
      (?s1\<lparr>u2p_ring_read_pos :=
          u2p_pad (u2p_ring_read_pos s + of_nat (60 + length (path (dbgi_key params))))\<rparr>)"
  have a: "u2p_ring_write_pos ?s1 mod 8 = 0"
    by (simp only: rt(3) u2p_pad_mod8)
  have b: "u2p_ring_read_pos ?s2 =
      u2p_pad (u2p_ring_read_pos s + of_nat (60 + length (path (dbgi_key params))))"
    and c: "u2p_ring_write_pos ?s2 = u2p_ring_write_pos ?s1"
    by (simp_all add: os_condition_variable_broadcast_def)
  have w1: "u2p_ring_write_pos ?s1 =
      (u2p_ring_write_pos s + of_nat (60 + length (path (dbgi_key params))) + 7)
      - (u2p_ring_write_pos s + of_nat (60 + length (path (dbgi_key params))) + 7) mod 8"
    using rt(3) by (simp only: u2p_pad_def)
  have r2: "u2p_ring_read_pos ?s2 =
      (u2p_ring_read_pos s + of_nat (60 + length (path (dbgi_key params))) + 7)
      - (u2p_ring_read_pos s + of_nat (60 + length (path (dbgi_key params))) + 7) mod 8"
    using b by (simp only: u2p_pad_def)
  have "u2p_ring_read_pos ?s2 =
      u2p_pad (u2p_ring_write_pos s + of_nat (60 + length (path (dbgi_key params))))"
    by (subst b) (simp only: empty)
  also have "\<dots> = u2p_ring_write_pos ?s1"
    by (simp only: rt(3))
  also have "\<dots> = u2p_ring_write_pos ?s2"
    by (simp only: c)
  finally have eq: "u2p_ring_read_pos ?s2 = u2p_ring_write_pos ?s2" .
  show ?thesis
    apply (rule exI [of _ ?s1])
    apply (rule exI [of _ ?s2])
    apply (intro conjI)
         apply (rule rt(1))
        apply (rule rt(2))
       apply (rule w1)
      apply (rule r2)
     apply (rule a)
    apply (rule eq)
    done
qed

text \<open>
  The witness: right after \<open>dasm_init\<close>, a request with the two-byte path \<open>/a\<close>; the
  record takes 62 bytes and both positions end at 64.
\<close>

theorem u2p_ring_round_trip_witness:
  "\<exists>s1 s2.
     dasm_u2p_enqueue_req (1, 2)
       (example_params\<lparr>dbgi_key := \<lparr>path = [47, 97], min_timestamp = 5\<rparr>\<rparr>) max_U64 example_init
       = Some (True, s1) \<and>
     dasm_u2p_dequeue_req s1
       = Some ((1, 2), example_params\<lparr>dbgi_key := \<lparr>path = [47, 97], min_timestamp = 5\<rparr>\<rparr>, s2) \<and>
     u2p_ring_write_pos s1 = 64 \<and> u2p_ring_read_pos s2 = 64 \<and> u2p_ring_write_pos s2 = 64"
proof -
  let ?p = "example_params\<lparr>dbgi_key := \<lparr>path = [47, 97], min_timestamp = 5\<rparr>\<rparr>"
  have fits: "60 + length (path (dbgi_key ?p)) \<le> unat (u2p_ring_size example_init)"
    by (simp add: example_init_ring(4))
  from u2p_ring_round_trip [OF example_init_ring(1) example_init_ring(2) fits,
      where hash = "(1, 2)" and endt_us = max_U64]
  obtain s1 s2 where
    "dasm_u2p_enqueue_req (1, 2) ?p max_U64 example_init = Some (True, s1)"
    "dasm_u2p_dequeue_req s1 = Some ((1, 2), ?p, s2)"
    "u2p_ring_write_pos s1 = 64" "u2p_ring_read_pos s2 = 64" "u2p_ring_read_pos s2 = u2p_ring_write_pos s2"
    by (auto simp: example_init_ring(2,3))
  then show ?thesis by auto
qed

text \<open>
  C8. The enqueue broadcasts the ring's condition variable when it succeeds. The dequeue
  passes the handle \<open>u2p_ring_mutex\<close> to \<open>os_condition_variable_broadcast\<close>: right after
  \<open>dasm_init\<close> with the condition variable's handle 1 and the mutex's handle 2, an
  enqueue followed by a dequeue leaves the broadcasts \<open>[1, 2]\<close>, so the dequeue's
  broadcast is not on the ring's condition variable.
\<close>

theorem dequeue_broadcasts_mutex_handle:
  "\<exists>s1 s2.
     dasm_u2p_enqueue_req (1, 2) example_params max_U64 example_init = Some (True, s1) \<and>
     cv_broadcasts s1 = [1] \<and>
     dasm_u2p_dequeue_req s1 = Some ((1, 2), example_params, s2) \<and>
     cv_broadcasts s2 = [1, 2] \<and>
     u2p_ring_cv s2 = 1 \<and> u2p_ring_mutex s2 = 2"
proof -
  have fits: "60 + length (path (dbgi_key example_params)) \<le> unat (u2p_ring_size example_init)"
    by (simp add: example_init_ring(4) example_params_def)
  note rt = u2p_enqueue_dequeue_empty [OF example_init_ring(1) example_init_ring(2) fits]
  let ?s1 = "os_condition_variable_broadcast (u2p_ring_cv example_init)
      (u2p_enqueue_write (1, 2) example_params example_init)"
  let ?s2 = "os_condition_variable_broadcast (u2p_ring_mutex example_init)
      (?s1\<lparr>u2p_ring_read_pos := u2p_pad (u2p_ring_read_pos example_init
          + of_nat (60 + length (path (dbgi_key example_params))))\<rparr>)"
  have cv: "u2p_ring_cv example_init = 1" and mutex: "u2p_ring_mutex example_init = 2"
    and bc: "cv_broadcasts example_init = []"
    by (simp_all add: example_init_def dasm_init_def)
  have b1: "cv_broadcasts ?s1 = [1]"
    using rt(4) by (simp add: cv bc)
  have b2: "cv_broadcasts ?s2 = [1, 2]"
    using b1 by (simp add: os_condition_variable_broadcast_def mutex)
  have "u2p_ring_cv (u2p_enqueue_write (1, 2) example_params example_init) = 1"
    "u2p_ring_mutex (u2p_enqueue_write (1, 2) example_params example_init) = 2"
    by (simp_all add: u2p_enqueue_write_eq [OF example_init_ring(1)] u2p_write_def cv mutex)
  then have h: "u2p_ring_cv ?s2 = 1" "u2p_ring_mutex ?s2 = 2"
    by (simp_all add: os_condition_variable_broadcast_def)
  show ?thesis
    apply (rule exI [of _ ?s1])
    apply (rule exI [of _ ?s2])
    apply (intro conjI)
         apply (rule rt(1))
        apply (rule b1)
       apply (rule rt(2))
      apply (rule b2)
     apply (rule h(1))
    apply (rule h(2))
    done
qed

section \<open>Properties of the evictor\<close>

lemma u2p_enqueue_write_frame:
  "table_frame s (u2p_enqueue_write h p s)"
  by (simp add: table_frame_def u2p_enqueue_write_def u2p_write_def Let_def)

lemma u2p_enqueue_loop_frame:
  assumes "u2p_enqueue_loop h p e s = Some r"
  shows "table_frame s (snd r)"
proof (rule u2p_enqueue_loop.raw_induct [where P = "\<lambda>h p e s r. table_frame s (snd r)", OF _ assms])
  fix loop :: "u128 \<Rightarrow> DASM_Params \<Rightarrow> u64 \<Rightarrow> dasm_state \<Rightarrow> (bool \<times> dasm_state) option"
    and h p e s r
  assume IH: "\<And>h p e s r. loop h p e s = Some r \<Longrightarrow> table_frame s (snd r)"
    and eq: "(if u2p_enqueue_has_room p s
      then Some (True, u2p_enqueue_write h p s)
      else if e \<le> fst (os_now_microseconds s)
           then Some (False, snd (os_now_microseconds s))
           else loop h p e (snd (os_now_microseconds s))) = Some r"
  show "table_frame s (snd r)"
  proof (cases "u2p_enqueue_has_room p s")
    case True
    with eq show ?thesis by (auto simp: u2p_enqueue_write_frame)
  next
    case False
    note nr = this
    let ?s1 = "snd (os_now_microseconds s)"
    have f1: "table_frame s ?s1"
      by (simp add: table_frame_def os_now_microseconds_def)
    show ?thesis
    proof (cases "e \<le> fst (os_now_microseconds s)")
      case True
      with nr eq f1 show ?thesis by auto
    next
      case False
      with nr eq have "loop h p e ?s1 = Some r" by simp
      then have "table_frame ?s1 (snd r)" by (rule IH)
      with f1 show ?thesis by (simp add: table_frame_def)
    qed
  qed
qed

lemma dasm_u2p_enqueue_req_frame:
  assumes "dasm_u2p_enqueue_req h p e s = Some (good, s')"
  shows "slots s' = slots s" "stripes s' = stripes s" "node_mem s' = node_mem s"
    "arenas_released s' = arenas_released s" "stripes_count s' = stripes_count s"
proof -
  from assms obtain r where r: "u2p_enqueue_loop h p e s = Some r"
    and s': "s' = (if fst r then os_condition_variable_broadcast (u2p_ring_cv (snd r)) (snd r) else snd r)"
    by (auto simp: dasm_u2p_enqueue_req_def split: option.splits prod.splits)
  from u2p_enqueue_loop_frame [OF r] have "table_frame s (snd r)" .
  then show "slots s' = slots s" "stripes s' = stripes s" "node_mem s' = node_mem s"
    "arenas_released s' = arenas_released s" "stripes_count s' = stripes_count s"
    by (simp_all add: s' table_frame_def os_condition_variable_broadcast_def)
qed

lemma requested_only_refl: "requested_only m m"
  unfolding requested_only_def
proof
  fix n
  have "m n = (m n)\<lparr>node_last_time_requested_us := node_last_time_requested_us (m n),
      node_last_user_clock_idx_requested := node_last_user_clock_idx_requested (m n)\<rparr>"
    by simp
  then show "\<exists>a b. m n = (m n)\<lparr>node_last_time_requested_us := a,
      node_last_user_clock_idx_requested := b\<rparr>" by blast
qed



lemma requeue_node_frame:
  assumes "requeue_node uc n s = Some s'"
  shows "slots s' = slots s" "stripes s' = stripes s"
    "arenas_released s' = arenas_released s" "stripes_count s' = stripes_count s"
    "requested_only (node_mem s) (node_mem s')"
proof -
  from assms obtain good s1 where
    enq: "dasm_u2p_enqueue_req (node_hash (node_mem s n)) (node_params (node_mem s n)) max_U64 s
            = Some (good, s1)"
    and s': "s' = (if good
        then node_update n (\<lambda>n. n\<lparr>node_last_user_clock_idx_requested := uc\<rparr>)
          (node_update n (\<lambda>n. n\<lparr>node_last_time_requested_us := fst (os_now_microseconds s1)\<rparr>)
            (snd (os_now_microseconds s1)))
        else s1)"
    by (auto simp: requeue_node_def Let_def split: option.splits prod.splits if_splits)
  note fr = dasm_u2p_enqueue_req_frame [OF enq]
  show "slots s' = slots s" "stripes s' = stripes s"
    "arenas_released s' = arenas_released s" "stripes_count s' = stripes_count s"
    by (simp_all add: s' fr node_update_def os_now_microseconds_def)
  show "requested_only (node_mem s) (node_mem s')"
  proof (cases good)
    case False
    then show ?thesis by (simp add: s' fr requested_only_refl)
  next
    case True
    show ?thesis
      unfolding requested_only_def
    proof
      fix m
      show "\<exists>a b. node_mem s' m = (node_mem s m)\<lparr>node_last_time_requested_us := a,
          node_last_user_clock_idx_requested := b\<rparr>"
      proof (cases "m = n")
        case True
        then have "node_mem s' m = (node_mem s m)\<lparr>node_last_time_requested_us :=
            fst (os_now_microseconds s1), node_last_user_clock_idx_requested := uc\<rparr>"
          using \<open>good\<close> by (simp add: s' fr node_update_def os_now_microseconds_def)
        then show ?thesis by blast
      next
        case False
        then have "node_mem s' m = node_mem s m"
          using \<open>good\<close> by (simp add: s' fr node_update_def os_now_microseconds_def)
        with requested_only_refl [of "node_mem s"] show ?thesis
          unfolding requested_only_def by metis
      qed
    qed
  qed
qed

lemma released_arenas_simps [simp]:
  "released_arenas mem [] = []"
  "released_arenas mem (n # ns) =
     (case node_info_arena (mem n) of None \<Rightarrow> [] | Some a \<Rightarrow> [a]) @ released_arenas mem ns"
  by (simp_all add: released_arenas_def)

lemma evict_node_effect:
  "slots (evict_node slot_idx stripe_idx n s) = (slots s)(slot_idx := remove1 n (slots s slot_idx))"
  "stripes (evict_node slot_idx stripe_idx n s) =
     (stripes s)(stripe_idx := (stripes s stripe_idx)\<lparr>free_node := n # free_node (stripes s stripe_idx)\<rparr>)"
  "arenas_released (evict_node slot_idx stripe_idx n s) =
     arenas_released s @ (case node_info_arena (node_mem s n) of None \<Rightarrow> [] | Some a \<Rightarrow> [a])"
  "node_mem (evict_node slot_idx stripe_idx n s) = node_mem s"
  "stripes_count (evict_node slot_idx stripe_idx n s) = stripes_count s"
  by (simp_all add: evict_node_def Let_def arena_release_def split: option.splits)

lemma evictor_visit_node_effect:
  assumes "evictor_visit_node cg t uc slot_idx stripe_idx n s = Some s'"
  defines "e \<equiv> evict_cond t uc (node_mem s n)"
  shows "slots s' = (if e then (slots s)(slot_idx := remove1 n (slots s slot_idx)) else slots s)"
    and "stripes s' = (if e then (stripes s)(stripe_idx := (stripes s stripe_idx)
            \<lparr>free_node := n # free_node (stripes s stripe_idx)\<rparr>) else stripes s)"
    and "arenas_released s' = arenas_released s @ (if e then released_arenas (node_mem s) [n] else [])"
    and "stripes_count s' = stripes_count s"
    and "requested_only (node_mem s) (node_mem s')"
proof -
  define s1 where "s1 = (if e then evict_node slot_idx stripe_idx n s else s)"
  have mem1: "node_mem s1 = node_mem s"
    by (simp add: s1_def evict_node_effect)
  from assms(1) have cases: "s' = s1 \<or> requeue_node uc n s1 = Some s'"
    by (auto simp: evictor_visit_node_def Let_def s1_def e_def split: if_splits)
  have fr: "slots s' = slots s1 \<and> stripes s' = stripes s1 \<and>
      arenas_released s' = arenas_released s1 \<and> stripes_count s' = stripes_count s1 \<and>
      requested_only (node_mem s1) (node_mem s')"
    using cases
  proof
    assume "s' = s1"
    then show ?thesis by (simp add: requested_only_refl)
  next
    assume "requeue_node uc n s1 = Some s'"
    from requeue_node_frame [OF this] show ?thesis by simp
  qed
  show "slots s' = (if e then (slots s)(slot_idx := remove1 n (slots s slot_idx)) else slots s)"
    using fr by (simp add: s1_def evict_node_effect)
  show "stripes s' = (if e then (stripes s)(stripe_idx := (stripes s stripe_idx)
            \<lparr>free_node := n # free_node (stripes s stripe_idx)\<rparr>) else stripes s)"
    using fr by (simp add: s1_def evict_node_effect)
  show "arenas_released s' = arenas_released s @ (if e then released_arenas (node_mem s) [n] else [])"
    using fr by (simp add: s1_def evict_node_effect)
  show "stripes_count s' = stripes_count s"
    using fr by (simp add: s1_def evict_node_effect)
  show "requested_only (node_mem s) (node_mem s')"
    using fr mem1 by simp
qed


lemma released_arenas_append:
  "released_arenas m (xs @ ys) = released_arenas m xs @ released_arenas m ys"
  by (simp add: released_arenas_def)








lemma evict_node_ring:
  "u2p_ring_size (evict_node slot_idx stripe_idx n s) = u2p_ring_size s"
  "u2p_ring_read_pos (evict_node slot_idx stripe_idx n s) = u2p_ring_read_pos s"
  "u2p_ring_write_pos (evict_node slot_idx stripe_idx n s) = u2p_ring_write_pos s"
  "u2p_ring_cv (evict_node slot_idx stripe_idx n s) = u2p_ring_cv s"
  "cv_broadcasts (evict_node slot_idx stripe_idx n s) = cv_broadcasts s"
  "os_time (evict_node slot_idx stripe_idx n s) = os_time s"
  "os_time_reads (evict_node slot_idx stripe_idx n s) = os_time_reads s"
  by (simp_all add: evict_node_def Let_def arena_release_def split: option.splits)

lemma u2p_enqueue_write_clock:
  "os_time (u2p_enqueue_write h p s) = os_time s"
  "os_time_reads (u2p_enqueue_write h p s) = os_time_reads s"
  by (simp_all add: u2p_enqueue_write_def u2p_write_def Let_def)

lemma evictor_visit_node_both:
  assumes ev: "evict_cond t uc (node_mem s n)"
    and st: "retry_cond cg t uc (node_mem s n)"
    and dvd: "unat (u2p_ring_size s) dvd 2 ^ 64"
    and empty: "u2p_ring_read_pos s = u2p_ring_write_pos s"
    and fits: "60 + length (path (dbgi_key (node_params (node_mem s n)))) \<le> unat (u2p_ring_size s)"
  shows "\<exists>s'. evictor_visit_node cg t uc slot_idx stripe_idx n s = Some s'
      \<and> slots s' slot_idx = remove1 n (slots s slot_idx)
      \<and> free_node (stripes s' stripe_idx) = n # free_node (stripes s stripe_idx)
      \<and> cv_broadcasts s' = cv_broadcasts s @ [u2p_ring_cv s]
      \<and> u2p_ring_write_pos s' = u2p_pad (u2p_ring_write_pos s
            + of_nat (60 + length (path (dbgi_key (node_params (node_mem s n))))))
      \<and> node_last_time_requested_us (node_mem s' n) = os_time s (os_time_reads s)
      \<and> node_last_user_clock_idx_requested (node_mem s' n) = uc"
proof -
  define s1 where "s1 = evict_node slot_idx stripe_idx n s"
  define h where "h = node_hash (node_mem s n)"
  define p where "p = node_params (node_mem s n)"
  define s2 where "s2 = os_condition_variable_broadcast (u2p_ring_cv s1) (u2p_enqueue_write h p s1)"
  define s3 where "s3 = node_update n (\<lambda>n. n\<lparr>node_last_user_clock_idx_requested := uc\<rparr>)
      (node_update n (\<lambda>n. n\<lparr>node_last_time_requested_us := fst (os_now_microseconds s2)\<rparr>)
        (snd (os_now_microseconds s2)))"
  have mem1: "node_mem s1 = node_mem s" by (simp add: s1_def evict_node_effect)
  have dvd1: "unat (u2p_ring_size s1) dvd 2 ^ 64"
    unfolding s1_def evict_node_ring by (rule dvd)
  have empty1: "u2p_ring_read_pos s1 = u2p_ring_write_pos s1"
    unfolding s1_def evict_node_ring by (rule empty)
  have fits1: "60 + length (path (dbgi_key p)) \<le> unat (u2p_ring_size s1)"
    unfolding s1_def evict_node_ring p_def by (rule fits)
  note rt = u2p_enqueue_dequeue_empty [OF dvd1 empty1 fits1, of h]
  have enq: "dasm_u2p_enqueue_req h p max_U64 s1 = Some (True, s2)"
    unfolding s2_def by (rule rt(1))
  have fr: "table_frame s1 (u2p_enqueue_write h p s1)" by (rule u2p_enqueue_write_frame)
  have rq: "requeue_node uc n s1 = Some s3"
    by (simp add: requeue_node_def mem1 h_def [symmetric] p_def [symmetric] enq s3_def
        split: prod.splits)
  have v: "evictor_visit_node cg t uc slot_idx stripe_idx n s = Some s3"
    using ev st by (simp add: evictor_visit_node_def Let_def s1_def [symmetric] mem1 rq)
  have f2: "slots s2 = slots s1" "stripes s2 = stripes s1" "node_mem s2 = node_mem s1"
    "os_time s2 = os_time s" "os_time_reads s2 = os_time_reads s"
    using fr by (simp_all add: s2_def table_frame_def os_condition_variable_broadcast_def
        u2p_enqueue_write_clock s1_def evict_node_ring)
  have wp2: "u2p_ring_write_pos s2 = u2p_pad (u2p_ring_write_pos s + of_nat (60 + length (path (dbgi_key p))))"
    using rt(3) by (simp add: s2_def s1_def evict_node_ring)
  have bc2: "cv_broadcasts s2 = cv_broadcasts s @ [u2p_ring_cv s]"
    using rt(4) by (simp add: s2_def s1_def evict_node_ring)
  show ?thesis
    apply (rule exI [of _ s3])
    apply (intro conjI)
          apply (rule v)
         apply (simp add: s3_def node_update_def os_now_microseconds_def f2 s1_def evict_node_effect)
        apply (simp add: s3_def node_update_def os_now_microseconds_def f2 s1_def evict_node_effect)
       apply (simp add: s3_def node_update_def os_now_microseconds_def bc2)
      apply (simp add: s3_def node_update_def os_now_microseconds_def wp2 p_def)
     apply (simp add: s3_def node_update_def os_now_microseconds_def f2)
    apply (simp add: s3_def node_update_def os_now_microseconds_def)
    done
qed

lemma evictor_slots_loop_step:
  "j < count \<Longrightarrow> evictor_slots_loop cg t uc count j s =
     (case evictor_sweep_slot cg t uc j s of
        None \<Rightarrow> None
      | Some s \<Rightarrow> evictor_slots_loop cg t uc count (Suc j) s)"
  by (subst evictor_slots_loop.simps) (simp split: option.splits)

lemma evictor_sweep_slot_empty:
  "slots s j = [] \<Longrightarrow> evictor_sweep_slot cg t uc j s = Some s"
  by (simp add: evictor_sweep_slot_def slot_has_work_def)

lemma evictor_slots_loop_empty:
  assumes "\<And>i. j \<le> i \<Longrightarrow> i < count \<Longrightarrow> slots s i = []"
  shows "evictor_slots_loop cg t uc count j s = Some s"
  using assms
proof (induction "count - j" arbitrary: j)
  case 0
  then show ?case by (subst evictor_slots_loop.simps) simp
next
  case (Suc d)
  then have lt: "j < count" by simp
  have "evictor_slots_loop cg t uc count (Suc j) s = Some s"
    using Suc.hyps(2) Suc.prems by (intro Suc.hyps(1)) simp_all
  with lt Suc.prems [of j] show ?case
    by (simp add: evictor_slots_loop_step evictor_sweep_slot_empty)
qed

lemma example_stale_facts:
  "slots example_stale_state = (\<lambda>slot_idx. [])(2 := [(2, 0)])"
  "node_mem example_stale_state (2, 0) =
     example_node\<lparr>node_params := example_stale_params, node_change_gen := 1\<rparr>"
  "fs_change_gen example_stale_state = 2"
  "user_clock_idx example_stale_state = 20"
  "os_time example_stale_state = (\<lambda>i. 20000000)"
  "stripes_count example_stale_state = 8"
  "slots_count example_stale_state = 1024"
  "u2p_ring_size example_stale_state = 65536"
  "u2p_ring_read_pos example_stale_state = 0"
  "u2p_ring_write_pos example_stale_state = 0"
  "u2p_ring_cv example_stale_state = 1"
  "cv_broadcasts example_stale_state = []"
  "free_node (stripes example_stale_state 2) = []"
  "arenas_released example_stale_state = []"
  by (simp_all add: example_stale_state_def example_idle_state_def example_state_def
      example_init_def dasm_init_def)

text \<open>
  C5. A node that meets the eviction condition and the re-queue condition at once is
  evicted and then re-queued in the same pass. In the sweep of the example (the node of
  slot 2 idle for twenty seconds and twenty user clocks, committed under change
  generation 1, the file system now at 2) the node leaves its slot and lands on the free
  stack, and the same visit puts a request for it on the ring (the write position moves
  from 0 to 64, the condition variable is broadcast) and assigns the node's
  \<open>last_time_requested_us\<close> and \<open>last_user_clock_idx_requested\<close>.
\<close>

theorem evicted_node_requeued:
  "\<exists>s'. dasm_evictor_detector_thread__sweep example_stale_state = Some s'
     \<and> slots example_stale_state 2 = [(2, 0)]
     \<and> slots s' 2 = []
     \<and> free_node (stripes s' 2) = [(2, 0)]
     \<and> u2p_ring_write_pos example_stale_state = 0
     \<and> u2p_ring_write_pos s' = 64
     \<and> cv_broadcasts s' = [1]
     \<and> node_last_time_requested_us (node_mem example_stale_state (2, 0)) = 0
     \<and> node_last_time_requested_us (node_mem s' (2, 0)) = 20000000
     \<and> node_last_user_clock_idx_requested (node_mem s' (2, 0)) = 20"
proof -
  define s0 where "s0 = snd (os_now_microseconds example_stale_state)"
  note ef = example_stale_facts
  have f0: "slots s0 = (\<lambda>slot_idx. [])(2 := [(2, 0)])"
    "node_mem s0 (2, 0) =
       example_node\<lparr>node_params := example_stale_params, node_change_gen := 1\<rparr>"
    "stripes_count s0 = 8" "u2p_ring_size s0 = 65536"
    "u2p_ring_read_pos s0 = 0" "u2p_ring_write_pos s0 = 0" "u2p_ring_cv s0 = 1"
    "cv_broadcasts s0 = []" "free_node (stripes s0 2) = []"
    "os_time s0 = (\<lambda>i. 20000000)"
    by (simp_all add: s0_def os_now_microseconds_def ef)
  have sweep: "dasm_evictor_detector_thread__sweep example_stale_state
      = evictor_slots_loop 2 20000000 20 1024 0 s0"
    by (simp add: dasm_evictor_detector_thread__sweep_def Let_def s0_def os_now_microseconds_def
        dasm_user_clock_idx_def ef split: prod.splits)
  have ev: "evict_cond 20000000 20 (node_mem s0 (2, 0))"
    by (simp add: f0 evict_cond_def example_node_def dasm_node_zero_def
        evict_threshold_us_def evict_threshold_user_clocks_def)
  have st: "retry_cond 2 20000000 20 (node_mem s0 (2, 0))"
    by (simp add: f0 retry_cond_def example_node_def dasm_node_zero_def
        retry_threshold_us_def retry_threshold_user_clocks_def)
  have dvd: "unat (u2p_ring_size s0) dvd 2 ^ 64"
  proof -
    have "(2::nat) ^ 64 = 65536 * 2 ^ 48" by simp
    then have "(65536::nat) dvd 2 ^ 64" by (rule dvdI)
    then show ?thesis by (simp add: f0)
  qed
  have empty: "u2p_ring_read_pos s0 = u2p_ring_write_pos s0" by (simp add: f0)
  have fits: "60 + length (path (dbgi_key (node_params (node_mem s0 (2, 0)))))
      \<le> unat (u2p_ring_size s0)"
    by (simp add: f0 example_node_def example_params_def example_stale_params_def)
  from evictor_visit_node_both [OF ev st dvd empty fits, of 2 2]
  obtain s' where v: "evictor_visit_node 2 20000000 20 2 2 (2, 0) s0 = Some s'"
    and r: "slots s' 2 = remove1 (2, 0) (slots s0 2)"
      "free_node (stripes s' 2) = (2, 0) # free_node (stripes s0 2)"
      "cv_broadcasts s' = cv_broadcasts s0 @ [u2p_ring_cv s0]"
      "u2p_ring_write_pos s' = u2p_pad (u2p_ring_write_pos s0
            + of_nat (60 + length (path (dbgi_key (node_params (node_mem s0 (2, 0)))))))"
      "node_last_time_requested_us (node_mem s' (2, 0)) = os_time s0 (os_time_reads s0)"
      "node_last_user_clock_idx_requested (node_mem s' (2, 0)) = 20"
    by blast
  from evictor_visit_node_effect(1) [OF v] ev
  have sl': "slots s' = (\<lambda>slot_idx. [])" by (auto simp: f0)
  have work: "slot_has_work 2 20000000 20 2 s0"
    using ev by (simp add: slot_has_work_def f0)
  have s2: "evictor_sweep_slot 2 20000000 20 2 s0 = Some s'"
    using work v by (simp add: evictor_sweep_slot_def f0)
  have rest: "evictor_slots_loop 2 20000000 20 1024 3 s' = Some s'"
    by (rule evictor_slots_loop_empty) (simp add: sl')
  have l2: "evictor_slots_loop 2 20000000 20 1024 2 s0 = Some s'"
    by (subst evictor_slots_loop_step) (simp_all add: s2 rest)
  have l1: "evictor_slots_loop 2 20000000 20 1024 (Suc 0) s0 = Some s'"
    by (subst evictor_slots_loop_step) (simp_all add: evictor_sweep_slot_empty f0 l2 numeral_2_eq_2 [symmetric])
  have "evictor_slots_loop 2 20000000 20 1024 0 s0 = Some s'"
    by (subst evictor_slots_loop_step) (simp_all add: evictor_sweep_slot_empty f0 l1)
  with sweep have a: "dasm_evictor_detector_thread__sweep example_stale_state = Some s'" by simp
  show ?thesis
    apply (rule exI [of _ s'])
    using a r
    apply (simp add: f0 ef u2p_pad_def example_node_def example_params_def
        example_stale_params_def dasm_node_zero_def)
    done
qed





















section \<open>Properties of the parse thread's commit\<close>








section \<open>Properties of the disassembly loop\<close>

lemma concat_map_butlast_last:
  "nodes \<noteq> [] \<Longrightarrow>
   concat (map chunk_v (butlast nodes)) @ chunk_v (last nodes) = concat (map chunk_v nodes)"
  by (induction nodes) auto

lemma chunk_list_push_insts:
  "chunk_list_insts (dasm_inst_chunk_list_push list cap inst) = chunk_list_insts list @ [inst]"
  by (simp add: dasm_inst_chunk_list_push_def chunk_list_insts_def Let_def concat_map_butlast_last)

lemma chunk_list_push_ok:
  "chunk_list_ok list \<Longrightarrow> chunk_list_ok (dasm_inst_chunk_list_push list cap inst)"
  unfolding chunk_list_ok_def chunk_list_push_insts
  by (simp add: dasm_inst_chunk_list_push_def Let_def)

lemma chunk_list_array:
  "chunk_list_ok list \<Longrightarrow> dasm_inst_array_from_chunk_list list = chunk_list_insts list"
  by (simp add: dasm_inst_array_from_chunk_list_def chunk_list_insts_def chunk_list_ok_def)

lemma chunk_list_zero_ok: "chunk_list_ok dasm_inst_chunk_list_zero"
  "chunk_list_insts dasm_inst_chunk_list_zero = []"
  by (simp_all add: chunk_list_ok_def chunk_list_insts_def dasm_inst_chunk_list_zero_def)

lemma push_source_lines_effect:
  "acc_ok acc \<Longrightarrow>
   acc_ok (push_source_lines ls acc) \<and>
   chunk_list_insts (fst (push_source_lines ls acc))
     = chunk_list_insts (fst acc) @ replicate (length ls) dasm_inst_zero \<and>
   snd (push_source_lines ls acc) = snd acc @ ls"
proof (induction ls arbitrary: acc)
  case Nil
  then show ?case by simp
next
  case (Cons l ls)
  obtain il strs where acc: "acc = (il, strs)" by (cases acc)
  let ?acc1 = "(dasm_inst_chunk_list_push il 1024 dasm_inst_zero, strs @ [l])"
  have ok1: "acc_ok ?acc1"
    using Cons.prems by (simp add: acc acc_ok_def chunk_list_push_ok chunk_list_push_insts)
  from Cons.IH [OF ok1] show ?case
    by (simp add: acc chunk_list_push_insts replicate_app_Cons_same)
qed

lemma push_decoded_inst_effect:
  "acc_ok acc \<Longrightarrow>
   acc_ok (push_decoded_inst off rel_voff line acc) \<and>
   chunk_list_insts (fst (push_decoded_inst off rel_voff line acc))
     = chunk_list_insts (fst acc) @
       [\<lparr>code_off = of_nat off, jump_dst_vaddr = rel_voff,
         text_range = (of_nat (str8_list_total_size (snd acc) + length (snd acc)),
                       of_nat (str8_list_total_size (snd acc) + length (snd acc) + length line))\<rparr>] \<and>
   snd (push_decoded_inst off rel_voff line acc) = snd acc @ [line]"
  by (cases acc)
     (simp add: push_decoded_inst_def Let_def acc_ok_def chunk_list_push_ok chunk_list_push_insts
       r1u64_def)

lemma str8_list_join_Cons:
  "str8_list_join (x # xs) sep = x @ (if xs = [] then [] else sep @ str8_list_join xs sep)"
  by (cases xs) simp_all

lemma str8_list_join_split:
  "\<exists>before after.
     str8_list_join (pre @ x # post) sep = before @ x @ after \<and>
     length before = str8_list_total_size pre + length pre * length sep"
proof (induction pre)
  case Nil
  show ?case
    by (rule exI [of _ "[]"]) (simp add: str8_list_join_Cons str8_list_total_size_def)
next
  case (Cons p pre)
  then obtain before after where
    j: "str8_list_join (pre @ x # post) sep = before @ x @ after"
    and l: "length before = str8_list_total_size pre + length pre * length sep"
    by blast
  have "str8_list_join ((p # pre) @ x # post) sep = (p @ sep @ before) @ x @ after"
    by (simp add: str8_list_join_Cons j)
  moreover have "length (p @ sep @ before)
      = str8_list_total_size (p # pre) + length (p # pre) * length sep"
    by (simp add: l str8_list_total_size_def)
  ultimately show ?case by blast
qed

lemma str8_substr_line:
  assumes bound: "length (str8_list_join (pre @ x # post) [10]) < 2 ^ 64"
  shows "str8_substr (str8_list_join (pre @ x # post) [10])
           (of_nat (str8_list_total_size pre + length pre),
            of_nat (str8_list_total_size pre + length pre + length x)) = x"
proof -
  from str8_list_join_split [of pre x post "[10]"]
  obtain before after where
    j: "str8_list_join (pre @ x # post) [10] = before @ x @ after"
    and l: "length before = str8_list_total_size pre + length pre"
    by auto
  let ?a = "str8_list_total_size pre + length pre"
  from bound have b: "?a + length x < 2 ^ 64"
    by (simp add: j l)
  have un: "unat (of_nat n :: u64) = n" if "n < 2 ^ 64" for n
    using that by (simp add: unat_of_nat)
  from b have ua: "unat (of_nat ?a :: u64) = ?a"
    by (intro un) simp
  from b have ub: "unat (of_nat (?a + length x) :: u64) = ?a + length x"
    by (intro un) simp
  show ?thesis
    unfolding str8_substr_def fst_conv snd_conv ua ub j
    by (simp add: l)
qed

lemma decode_loop_step:
  assumes "off < length data" "ud_disassemble env data off = (sz, rel_voff)" "sz \<noteq> 0"
  shows "decode_loop env rdi params data off acc =
     decode_loop env rdi params data (off + unat sz)
       (push_decoded_inst off rel_voff (inst_string_at env rdi params data off)
          (push_source_lines (source_lines_before env rdi params off) acc))"
  using assms
  by (subst decode_loop.simps) (simp add: source_lines_before_def Let_def)

lemma decode_loop_stop:
  "\<not> off < length data \<or> fst (ud_disassemble env data off) = 0
   \<Longrightarrow> decode_loop env rdi params data off acc = acc"
  by (subst decode_loop.simps) (auto simp: Let_def split: prod.splits)

lemma decode_loop_extends:
  "acc_ok acc \<Longrightarrow>
   acc_ok (decode_loop env rdi params data off acc) \<and>
   (\<exists>more_insts more_strings.
      chunk_list_insts (fst (decode_loop env rdi params data off acc))
        = chunk_list_insts (fst acc) @ more_insts \<and>
      snd (decode_loop env rdi params data off acc) = snd acc @ more_strings)"
proof (induction env rdi params data off acc rule: decode_loop.induct)
  case (1 env rdi params data off acc)
  show ?case
  proof (cases "off < length data \<and> fst (ud_disassemble env data off) \<noteq> 0")
    case False
    then have "decode_loop env rdi params data off acc = acc"
      by (intro decode_loop_stop) auto
    with "1.prems" show ?thesis by simp
  next
    case True
    obtain sz rel_voff where ud: "ud_disassemble env data off = (sz, rel_voff)"
      by (cases "ud_disassemble env data off")
    with True have lt: "off < length data" and nz: "sz \<noteq> 0" by simp_all
    let ?acc1 = "push_source_lines (source_lines_before env rdi params off) acc"
    let ?line = "inst_string_at env rdi params data off"
    let ?acc2 = "push_decoded_inst off rel_voff ?line ?acc1"
    note e1 = push_source_lines_effect [OF "1.prems", of "source_lines_before env rdi params off"]
    from e1 have ok1: "acc_ok ?acc1" by simp
    note e2 = push_decoded_inst_effect [OF ok1, of off rel_voff ?line]
    from e2 have ok2: "acc_ok ?acc2" by simp
    have acc2_eq: "?acc2 = push_decoded_inst off rel_voff ?line
        (if style_flags params AND
              (DASM_StyleFlag_SourceFilesNames OR DASM_StyleFlag_SourceLines) \<noteq> 0
            \<and> rdi \<noteq> di_rdi_parsed_nil env
         then push_source_lines (source_line_strings env rdi params off) acc
         else acc)"
      by (simp add: source_lines_before_def)
    have ih: "acc_ok (decode_loop env rdi params data (off + unat sz) ?acc2) \<and>
      (\<exists>more_insts more_strings.
        chunk_list_insts (fst (decode_loop env rdi params data (off + unat sz) ?acc2))
          = chunk_list_insts (fst ?acc2) @ more_insts \<and>
        snd (decode_loop env rdi params data (off + unat sz) ?acc2) = snd ?acc2 @ more_strings)"
      unfolding acc2_eq
      by (rule "1.IH" [OF lt ud [symmetric] refl nz refl refl refl])
         (use ok2 acc2_eq in simp)
    have st: "decode_loop env rdi params data off acc
        = decode_loop env rdi params data (off + unat sz) ?acc2"
      by (rule decode_loop_step [OF lt ud nz])
    from ih e1 e2 show ?thesis
      unfolding st by auto
  qed
qed

lemma snd_push_source_lines: "snd (push_source_lines ls acc) = snd acc @ ls"
proof (induction ls arbitrary: acc)
  case Nil
  then show ?case by simp
next
  case (Cons l ls)
  then show ?case by (cases acc) simp
qed

lemma snd_push_decoded_inst: "snd (push_decoded_inst off rel_voff line acc) = snd acc @ [line]"
  by (cases acc) (simp add: push_decoded_inst_def Let_def)

text \<open>
  C7. At any head of the disassembly loop (any state that satisfies the loop's
  invariant) at which an instruction is decoded: with \<open>T\<close> the total size and \<open>N\<close> the
  number of the strings emitted before the instruction's line (the strings so far and
  the source lines pushed in this round), the array built from the loop's final chunk
  list holds at index \<open>N\<close> the instruction with \<open>code_off\<close> the offset in the blob and
  \<open>text_range = [T + N, T + N + L)\<close>, \<open>L\<close> the length of the rendered line; the final
  string list holds that line at index \<open>N\<close>; and the range selects exactly that line in
  the final text joined with line feeds. The final text is shorter than \<open>2 ^ 64\<close> bytes,
  as any buffer in memory is, so the 64-bit sums do not wrap.
\<close>

theorem decoded_inst_text_range:
  fixes env :: parse_env and params :: DASM_Params and inst_strings :: "u8 list list"
    and rdi :: u64 and off :: nat and data :: "u8 list"
  defines "emitted \<equiv> inst_strings @ source_lines_before env rdi params off"
    and "line \<equiv> inst_string_at env rdi params data off"
  defines "T \<equiv> str8_list_total_size emitted" and "N \<equiv> length emitted"
  assumes ok: "acc_ok (inst_list, inst_strings)"
    and lt: "off < length data"
    and ud: "ud_disassemble env data off = (sz, rel_voff)"
    and nz: "sz \<noteq> 0"
    and fin: "decode_loop env rdi params data off (inst_list, inst_strings)
                = (inst_list_f, inst_strings_f)"
    and bound: "length (str8_list_join inst_strings_f [10]) < 2 ^ 64"
  shows "dasm_inst_array_from_chunk_list inst_list_f ! N =
           \<lparr>code_off = of_nat off, jump_dst_vaddr = rel_voff,
            text_range = (of_nat (T + N), of_nat (T + N + length line))\<rparr>
       \<and> inst_strings_f ! N = line
       \<and> str8_substr (str8_list_join inst_strings_f [10])
            (text_range (dasm_inst_array_from_chunk_list inst_list_f ! N)) = line
       \<and> unat (of_nat (T + N) :: u64) = T + N
       \<and> unat (of_nat (T + N + length line) :: u64) = T + N + length line"
proof -
  let ?acc = "(inst_list, inst_strings)"
  let ?acc1 = "push_source_lines (source_lines_before env rdi params off) ?acc"
  let ?acc2 = "push_decoded_inst off rel_voff line ?acc1"
  let ?inst = "\<lparr>code_off = of_nat off, jump_dst_vaddr = rel_voff,
            text_range = (of_nat (T + N) :: u64, of_nat (T + N + length line) :: u64)\<rparr>"
  note e1 = push_source_lines_effect [OF ok, of "source_lines_before env rdi params off"]
  from e1 have ok1: "acc_ok ?acc1" and s1: "snd ?acc1 = emitted"
    by (simp_all add: emitted_def)
  from ok1 have len1: "length (chunk_list_insts (fst ?acc1)) = N"
    by (simp add: acc_ok_def s1 N_def)
  note e2 = push_decoded_inst_effect [OF ok1, of off rel_voff line]
  from e2 have ok2: "acc_ok ?acc2"
    and i2: "chunk_list_insts (fst ?acc2) = chunk_list_insts (fst ?acc1) @ [?inst]"
    and s2: "snd ?acc2 = emitted @ [line]"
    by (simp_all add: s1 T_def N_def)
  have st: "decode_loop env rdi params data off ?acc
      = decode_loop env rdi params data (off + unat sz) ?acc2"
    unfolding line_def by (rule decode_loop_step [OF lt ud nz])
  from decode_loop_extends [OF ok2, of env rdi params data "off + unat sz"]
  obtain more_insts more_strings where
    okf: "acc_ok (inst_list_f, inst_strings_f)"
    and insts_f: "chunk_list_insts inst_list_f = chunk_list_insts (fst ?acc2) @ more_insts"
    and strs_f: "inst_strings_f = snd ?acc2 @ more_strings"
    unfolding st [symmetric] fin by auto
  have arr: "dasm_inst_array_from_chunk_list inst_list_f
      = chunk_list_insts (fst ?acc1) @ ?inst # more_insts"
    using okf by (simp add: chunk_list_array acc_ok_def insts_f i2)
  have a: "dasm_inst_array_from_chunk_list inst_list_f ! N = ?inst"
    unfolding arr using len1 by (simp add: nth_append)
  have strs: "inst_strings_f = emitted @ line # more_strings"
    by (simp add: strs_f s2)
  have b: "inst_strings_f ! N = line"
    unfolding strs by (simp add: N_def nth_append)
  have c: "str8_substr (str8_list_join inst_strings_f [10])
      (of_nat (T + N), of_nat (T + N + length line)) = line"
    unfolding T_def N_def using bound [unfolded strs] unfolding strs
    by (rule str8_substr_line)
  from str8_list_join_split [of emitted line more_strings "[10]"]
  obtain before after where
    j: "str8_list_join (emitted @ line # more_strings) [10] = before @ line @ after"
    and l: "length before = T + N"
    by (auto simp: T_def N_def)
  from bound have lt64: "T + N + length line < 2 ^ 64"
    unfolding strs j by (simp add: l)
  have un: "unat (of_nat n :: u64) = n" if "n < 2 ^ 64" for n
    using that by (simp add: unat_of_nat)
  from lt64 have d: "unat (of_nat (T + N) :: u64) = T + N"
    by (intro un) simp
  from lt64 have e: "unat (of_nat (T + N + length line) :: u64) = T + N + length line"
    by (intro un) simp
  show ?thesis
    unfolding a using a b c d e by simp
qed

text \<open>
  The witness: two one-byte instructions, one line of source text before the first. The
  strings are \<open>> a\<close>, \<open>nop\<close>, \<open>nop\<close>; the instructions sit at the indices 1 and 2 with
  the ranges \<open>[4, 7)\<close> and \<open>[8, 11)\<close>, each selecting \<open>nop\<close> in the joined text.
\<close>

theorem decoded_inst_text_range_witness:
  "\<exists>il strs.
     decode_loop example_env 7 example_stale_params [144, 144] 0 (dasm_inst_chunk_list_zero, [])
       = (il, strs) \<and>
     strs = [[62, 32, 97], [110, 111, 112], [110, 111, 112]] \<and>
     dasm_inst_array_from_chunk_list il ! 1 =
       \<lparr>code_off = 0, jump_dst_vaddr = 0, text_range = (4, 7)\<rparr> \<and>
     dasm_inst_array_from_chunk_list il ! 2 =
       \<lparr>code_off = 1, jump_dst_vaddr = 0, text_range = (8, 11)\<rparr> \<and>
     str8_substr (str8_list_join strs [10]) (4, 7) = [110, 111, 112] \<and>
     str8_substr (str8_list_join strs [10]) (8, 11) = [110, 111, 112]"
proof -
  let ?env = example_env and ?p = example_stale_params and ?d = "[144, 144] :: u8 list"
  let ?nop = "[110, 111, 112] :: u8 list"
  let ?acc0 = "(dasm_inst_chunk_list_zero, []) :: DASM_InstChunkList \<times> u8 list list"
  have ud: "ud_disassemble ?env ?d off = (1, 0)" for off
    by (simp add: example_env_def)
  have line: "inst_string_at ?env 7 ?p ?d off = ?nop" for off
    by (simp add: example_env_def)
  have slb0: "source_lines_before ?env 7 ?p 0 = [[62, 32, 97]]"
    and slb1: "source_lines_before ?env 7 ?p (Suc 0) = []"
    by (simp_all add: source_lines_before_def example_env_def example_stale_params_def
        DASM_StyleFlag_SourceLines_def DASM_StyleFlag_SourceFilesNames_def
        DASM_StyleFlag_Addresses_def)
  define acc1 where "acc1 = push_decoded_inst 0 0 ?nop (push_source_lines [[62, 32, 97]] ?acc0)"
  define acc2 where "acc2 = push_decoded_inst (Suc 0) 0 ?nop (push_source_lines [] acc1)"
  have ok0: "acc_ok ?acc0"
    by (simp add: acc_ok_def chunk_list_zero_ok)
  have ok1: "acc_ok acc1"
    unfolding acc1_def
    using push_decoded_inst_effect [OF conjunct1 [OF push_source_lines_effect [OF ok0]]]
    by blast
  have st0: "decode_loop ?env 7 ?p ?d 0 ?acc0 = decode_loop ?env 7 ?p ?d (Suc 0) acc1"
    using decode_loop_step [of 0 ?d ?env 1 0 7 ?p ?acc0]
    by (simp add: ud line slb0 acc1_def)
  have st1: "decode_loop ?env 7 ?p ?d (Suc 0) acc1 = decode_loop ?env 7 ?p ?d (Suc (Suc 0)) acc2"
    using decode_loop_step [of "Suc 0" ?d ?env 1 0 7 ?p acc1]
    by (simp add: ud line slb1 acc2_def)
  have st2: "decode_loop ?env 7 ?p ?d (Suc (Suc 0)) acc2 = acc2"
    by (rule decode_loop_stop) simp
  have s1: "snd acc1 = [[62, 32, 97], ?nop]"
    by (simp add: acc1_def snd_push_decoded_inst snd_push_source_lines)
  have s2: "snd acc2 = [[62, 32, 97], ?nop, ?nop]"
    by (simp add: acc2_def snd_push_decoded_inst snd_push_source_lines s1)
  obtain il where a2: "acc2 = (il, [[62, 32, 97], ?nop, ?nop])"
    using s2 by (cases acc2) simp
  obtain il1 where a1: "acc1 = (il1, [[62, 32, 97], ?nop])"
    using s1 by (cases acc1) simp
  have fin0: "decode_loop ?env 7 ?p ?d 0 ?acc0 = (il, [[62, 32, 97], ?nop, ?nop])"
    unfolding st0 st1 st2 by (rule a2)
  have fin1: "decode_loop ?env 7 ?p ?d (Suc 0) (il1, [[62, 32, 97], ?nop])
      = (il, [[62, 32, 97], ?nop, ?nop])"
    unfolding a1 [symmetric] st1 st2 by (rule a2)
  have bound: "length (str8_list_join [[62, 32, 97], ?nop, ?nop] [10]) < 2 ^ 64"
    by simp
  have lt0: "0 < length ?d" and lt1: "Suc 0 < length ?d" by simp_all
  have nz: "(1 :: u64) \<noteq> 0" by simp
  note t0 = decoded_inst_text_range [OF ok0 lt0 ud nz fin0 bound]
  have r0: "dasm_inst_array_from_chunk_list il ! Suc 0 =
       \<lparr>code_off = 0, jump_dst_vaddr = 0, text_range = (4, 7)\<rparr>"
    using t0 [THEN conjunct1] by (simp add: slb0 line str8_list_total_size_def)
  have "str8_substr (str8_list_join [[62, 32, 97], ?nop, ?nop] [10])
       (text_range (dasm_inst_array_from_chunk_list il ! Suc 0)) = ?nop"
    using t0 [THEN conjunct2, THEN conjunct2, THEN conjunct1] by (simp add: slb0 line)
  then have sub0: "str8_substr (str8_list_join [[62, 32, 97], ?nop, ?nop] [10]) (4, 7) = ?nop"
    unfolding r0 by simp
  note t1 = decoded_inst_text_range [OF ok1 [unfolded a1] lt1 ud nz fin1 bound]
  have r1: "dasm_inst_array_from_chunk_list il ! Suc (Suc 0) =
       \<lparr>code_off = 1, jump_dst_vaddr = 0, text_range = (8, 11)\<rparr>"
    using t1 [THEN conjunct1] by (simp add: slb1 line str8_list_total_size_def)
  have "str8_substr (str8_list_join [[62, 32, 97], ?nop, ?nop] [10])
       (text_range (dasm_inst_array_from_chunk_list il ! Suc (Suc 0))) = ?nop"
    using t1 [THEN conjunct2, THEN conjunct2, THEN conjunct1] by (simp add: slb1 line)
  then have sub1: "str8_substr (str8_list_join [[62, 32, 97], ?nop, ?nop] [10]) (8, 11) = ?nop"
    unfolding r1 by simp
  have two: "(2 :: nat) = Suc (Suc 0)" by simp
  show ?thesis
    apply (rule exI [of _ il])
    apply (rule exI [of _ "[[62, 32, 97], ?nop, ?nop]"])
    apply (intro conjI)
         apply (rule fin0)
        apply (rule refl)
       apply (simp only: One_nat_def r0)
      apply (simp only: two r1)
     apply (rule sub0)
    apply (rule sub1)
    done
qed

end
